theory Spec2Isabelle
  imports Main "HOL-Library.Word" "HOL-Library.Log_Nat"
begin

unbundle bit_operations_syntax

section \<open>C arithmetic used by blinky_task.c\<close>

subsection \<open>Tick counts\<close>

text \<open>
  \<^verbatim>\<open>TickType_t\<close>, \<^verbatim>\<open>uint32_t\<close> and \<^verbatim>\<open>unsigned long\<close> are unsigned 32-bit
  integers on this target: subtraction wraps around and comparison is unsigned.
\<close>

type_synonym uint8_t = "8 word"
type_synonym uint32_t = "32 word"
type_synonym TickType_t = "32 word"

subsection \<open>Binary floating point\<close>

text \<open>
  \<^verbatim>\<open>g_fSpeed\<close> is a \<^verbatim>\<open>float\<close> and \<^verbatim>\<open>BLINK_RATE\<close> a \<^verbatim>\<open>double\<close> constant. A
  floating-point datum is modelled by the number it denotes: a finite value is the
  rational it stands for (the two zeros are not distinguished: the program never divides
  and never looks at a sign bit), the rest are the two infinities and NaN. The format
  (binary32 for \<^verbatim>\<open>float\<close>, binary64 for \<^verbatim>\<open>double\<close>) enters where a result is rounded.
\<close>

datatype fp = Finite rat | PInf | NInf | NaN

record fp_format =
  prec :: nat
  emax :: int

definition binary32 :: fp_format where
  "binary32 = \<lparr>prec = 24, emax = 127\<rparr>"

definition binary64 :: fp_format where
  "binary64 = \<lparr>prec = 53, emax = 1023\<rparr>"

definition pow2 :: "int \<Rightarrow> rat" where
  "pow2 e = (if 0 \<le> e then 2 ^ nat e else 1 / 2 ^ nat (- e))"

text \<open>The binary exponent of a positive rational: \<open>pow2 (ilog2 x) \<le> x < pow2 (ilog2 x + 1)\<close>.\<close>

definition ilog2 :: "rat \<Rightarrow> int" where
  "ilog2 x = (let (a, b) = quotient_of x; k = bitlen a - bitlen b
              in if pow2 k \<le> x then k else k - 1)"

definition round_half_even :: "rat \<Rightarrow> int" where
  "round_half_even r =
     (let f = \<lfloor>r\<rfloor>; d = r - of_int f
      in if d < 1 / 2 then f
         else if 1 / 2 < d then f + 1
         else if even f then f else f + 1)"

text \<open>
  Rounding to nearest, ties to even (the default rounding direction): the value is
  rounded to a multiple of the unit in the last place of its binade (of the smallest
  binade for a subnormal). The result is an infinity when its exponent is beyond the
  largest one, be it the exponent of the value or the one reached by rounding the
  significand up to \<open>2 ^ prec\<close> in the last binade.
\<close>

definition fp_round :: "fp_format \<Rightarrow> rat \<Rightarrow> fp" where
  "fp_round fmt x =
     (if x = 0 then Finite 0
      else let e = max (ilog2 \<bar>x\<bar>) (1 - emax fmt);
               q = pow2 (e - int (prec fmt) + 1);
               n = round_half_even (\<bar>x\<bar> / q)
           in if emax fmt < e \<or> (e = emax fmt \<and> 2 ^ prec fmt \<le> n)
              then (if 0 < x then PInf else NInf)
              else Finite (sgn x * (of_int n * q)))"

fun fp_neg :: "fp \<Rightarrow> fp" where
  "fp_neg (Finite x) = Finite (- x)"
| "fp_neg PInf = NInf"
| "fp_neg NInf = PInf"
| "fp_neg NaN = NaN"

fun fp_add :: "fp_format \<Rightarrow> fp \<Rightarrow> fp \<Rightarrow> fp" where
  "fp_add fmt (Finite x) (Finite y) = fp_round fmt (x + y)"
| "fp_add fmt NaN b = NaN"
| "fp_add fmt a NaN = NaN"
| "fp_add fmt (Finite x) b = b"
| "fp_add fmt a (Finite y) = a"
| "fp_add fmt a b = (if a = b then a else NaN)"

definition fp_sub :: "fp_format \<Rightarrow> fp \<Rightarrow> fp \<Rightarrow> fp" where
  "fp_sub fmt a b = fp_add fmt a (fp_neg b)"

fun fp_mul :: "fp_format \<Rightarrow> fp \<Rightarrow> fp \<Rightarrow> fp" where
  "fp_mul fmt (Finite x) (Finite y) = fp_round fmt (x * y)"
| "fp_mul fmt NaN b = NaN"
| "fp_mul fmt a NaN = NaN"
| "fp_mul fmt (Finite x) b = (if x = 0 then NaN else if 0 < x then b else fp_neg b)"
| "fp_mul fmt a (Finite y) = (if y = 0 then NaN else if 0 < y then a else fp_neg a)"
| "fp_mul fmt a b = (if a = b then PInf else NInf)"

text \<open>Conversion of a floating-point value to the format \<open>fmt\<close> (a cast or an assignment).\<close>

fun fp_convert :: "fp_format \<Rightarrow> fp \<Rightarrow> fp" where
  "fp_convert fmt (Finite x) = fp_round fmt x"
| "fp_convert fmt a = a"

text \<open>Conversion of an unsigned integer to the format \<open>fmt\<close>.\<close>

definition fp_of_uint32 :: "fp_format \<Rightarrow> uint32_t \<Rightarrow> fp" where
  "fp_of_uint32 fmt w = fp_round fmt (of_nat (unat w))"

text \<open>
  Conversion of a floating-point value to \<^verbatim>\<open>uint32_t\<close>: the fractional part is
  discarded; C leaves the conversion undefined where the integral part does not fit
  (\<open>None\<close>).
\<close>

fun fp_to_uint32 :: "fp \<Rightarrow> uint32_t option" where
  "fp_to_uint32 (Finite x) =
     (if - 1 < x \<and> x < 2 ^ 32
      then Some (word_of_int (if 0 \<le> x then \<lfloor>x\<rfloor> else 0))
      else None)"
| "fp_to_uint32 a = None"

section \<open>The globals and the button interrupt handler\<close>

text \<open>
  The constants of the board and kernel headers, which are not part of the source file:
  the GPIO bits of the two buttons and of the two LEDs, the tick rate and the block time
  that stands for "wait for ever".
\<close>

record board =
  RIGHT_BUTTON :: uint32_t
  LEFT_BUTTON :: uint32_t
  BLUE_LED_PIN :: uint8_t
  RED_LED_PIN :: uint8_t
  configTICK_RATE_HZ :: uint32_t
  portMAX_DELAY :: TickType_t

text \<open>
  The values on the EK-TM4C123GXL named in the file's header comment, with a tick of one
  millisecond: the right button (SW2) is bit 0 of port F, the left button (SW1) bit 4,
  the red LED bit 1 and the blue LED bit 2.
\<close>

definition ek_tm4c123gxl :: board where
  "ek_tm4c123gxl = \<lparr>RIGHT_BUTTON = 0x01, LEFT_BUTTON = 0x10,
     BLUE_LED_PIN = 0x04, RED_LED_PIN = 0x02,
     configTICK_RATE_HZ = 1000, portMAX_DELAY = 0xFFFFFFFF\<rparr>"

text \<open>\<^verbatim>\<open>#define BLINK_RATE 0.1\<close>: a constant of type \<^verbatim>\<open>double\<close>.\<close>

definition BLINK_RATE :: fp where
  "BLINK_RATE = fp_round binary64 (1 / 10)"

text \<open>\<^verbatim>\<open>(1 + BLINK_RATE)\<close> and \<^verbatim>\<open>(1 - BLINK_RATE)\<close>, evaluated in \<^verbatim>\<open>double\<close>.\<close>

definition one_plus_BLINK_RATE :: fp where
  "one_plus_BLINK_RATE = fp_add binary64 (Finite 1) BLINK_RATE"

definition one_minus_BLINK_RATE :: fp where
  "one_minus_BLINK_RATE = fp_sub binary64 (Finite 1) BLINK_RATE"

text \<open>
  \<^verbatim>\<open>f *= d\<close> for a \<^verbatim>\<open>float f\<close> and a \<^verbatim>\<open>double d\<close>: \<^verbatim>\<open>f\<close> is promoted to
  \<^verbatim>\<open>double\<close> (exactly), the product is rounded to \<^verbatim>\<open>double\<close>, and the assignment
  converts it to \<^verbatim>\<open>float\<close>.
\<close>

definition float_mul_assign :: "fp \<Rightarrow> fp \<Rightarrow> fp" where
  "float_mul_assign f d = fp_convert binary32 (fp_mul binary64 f d)"

text \<open>
  \<^verbatim>\<open>volatile float g_fSpeed = 1;\<close> and \<^verbatim>\<open>volatile uint32_t g_ui32TimeStamp = 0;\<close>
\<close>

record globals =
  g_fSpeed :: fp
  g_ui32TimeStamp :: uint32_t

definition initial_globals :: globals where
  "initial_globals = \<lparr>g_fSpeed = Finite 1, g_ui32TimeStamp = 0\<rparr>"

text \<open>
  One run of the handler reads three things from its environment: the masked interrupt
  status of the button port (\<^verbatim>\<open>GPIOIntStatus\<close>), the tick count at the debounce test and
  the tick count at the final assignment (\<^verbatim>\<open>xTaskGetTickCount\<close> is called twice).
  \<^verbatim>\<open>GPIOIntClear\<close> writes to the peripheral only and is not part of the state here.
\<close>

record irq =
  ui32Status :: uint32_t
  xTickAtTest :: TickType_t
  xTickAtStamp :: TickType_t

text \<open>An interrupt that is served within the tick \<open>t\<close>.\<close>

definition irq_at :: "uint32_t \<Rightarrow> TickType_t \<Rightarrow> irq" where
  "irq_at st t = \<lparr>ui32Status = st, xTickAtTest = t, xTickAtStamp = t\<rparr>"

definition xButtonsHandler :: "board \<Rightarrow> irq \<Rightarrow> globals \<Rightarrow> globals" where
  "xButtonsHandler b i s =
     (let s' =
        (if 200 < xTickAtTest i - g_ui32TimeStamp s
         then
           if ui32Status i AND RIGHT_BUTTON b = RIGHT_BUTTON b
           then s\<lparr>g_fSpeed := float_mul_assign (g_fSpeed s) one_plus_BLINK_RATE\<rparr>
           else if ui32Status i AND LEFT_BUTTON b = LEFT_BUTTON b
           then s\<lparr>g_fSpeed := float_mul_assign (g_fSpeed s) one_minus_BLINK_RATE\<rparr>
           else s
         else s)
      in s'\<lparr>g_ui32TimeStamp := xTickAtStamp i\<rparr>)"

text \<open>A sequence of interrupts, served one after the other.\<close>

fun serve :: "board \<Rightarrow> irq list \<Rightarrow> globals \<Rightarrow> globals" where
  "serve b [] s = s"
| "serve b (i # is) s = serve b is (xButtonsHandler b i s)"

text \<open>
  Every interrupt of the sequence comes at most 200 ticks after the time stamp left by
  the one before it (\<open>ts\<close> for the first).
\<close>

fun within_window :: "TickType_t \<Rightarrow> irq list \<Rightarrow> bool" where
  "within_window ts [] = True"
| "within_window ts (i # is) =
     (xTickAtTest i - ts \<le> 200 \<and> within_window (xTickAtStamp i) is)"

text \<open>The rate factor before the first interrupt and after each one.\<close>

fun speeds :: "board \<Rightarrow> irq list \<Rightarrow> globals \<Rightarrow> fp list" where
  "speeds b [] s = [g_fSpeed s]"
| "speeds b (i # is) s = g_fSpeed s # speeds b is (xButtonsHandler b i s)"

text \<open>
  A sequence of interrupts in the first 200 ticks: the tick counts do not decrease from
  \<open>t\<close> on and none is above 200.
\<close>

fun early :: "TickType_t \<Rightarrow> irq list \<Rightarrow> bool" where
  "early t [] = True"
| "early t (i # is) =
     (t \<le> xTickAtTest i \<and> xTickAtTest i \<le> 200 \<and> xTickAtTest i \<le> xTickAtStamp i
      \<and> early (xTickAtStamp i) is)"

section \<open>The two tasks\<close>

text \<open>
  Modelled from the spec: \<^verbatim>\<open>pdMS_TO_TICKS\<close>, a macro of the kernel headers, which are
  not part of the source file. It gives a time in milliseconds in ticks ("1000 ms in
  ticks"), at the tick rate of the board.
\<close>

definition pdMS_TO_TICKS :: "board \<Rightarrow> uint32_t \<Rightarrow> TickType_t" where
  "pdMS_TO_TICKS b ms = (ms * configTICK_RATE_HZ b) div 1000"

text \<open>\<^verbatim>\<open>#define mainQUEUE_SEND_FREQUENCY_MS ( pdMS_TO_TICKS( 1000UL ) )\<close>\<close>

definition mainQUEUE_SEND_FREQUENCY_MS :: "board \<Rightarrow> TickType_t" where
  "mainQUEUE_SEND_FREQUENCY_MS b = pdMS_TO_TICKS b 1000"

text \<open>\<^verbatim>\<open>static TickType_t xShortBlock = pdMS_TO_TICKS( 500 );\<close>\<close>

definition xShortBlock :: "board \<Rightarrow> TickType_t" where
  "xShortBlock b = pdMS_TO_TICKS b 500"

text \<open>
  \<^verbatim>\<open>t * g_fSpeed\<close> passed for a parameter of type \<^verbatim>\<open>TickType_t\<close>: the tick count is
  converted to \<^verbatim>\<open>float\<close>, the product is a \<^verbatim>\<open>float\<close>, and the call converts it back
  to an unsigned integer.
\<close>

definition scaled_ticks :: "TickType_t \<Rightarrow> fp \<Rightarrow> TickType_t option" where
  "scaled_ticks t speed = fp_to_uint32 (fp_mul binary32 (fp_of_uint32 binary32 t) speed)"

text \<open>
  What a task does is the sequence of its calls into the kernel and the GPIO driver, each
  with the values of its arguments. The queue handle and the port are left out: there is
  one queue, and every write goes to port F. The check of the task parameter at the
  start of each task is left out as well: \<^verbatim>\<open>vBlinkyTask\<close> creates each task with the
  value that its check expects.
\<close>

datatype call =
  VTaskDelayUntil TickType_t TickType_t
| VTaskDelay TickType_t
| XQueueSend uint32_t TickType_t
| XQueueReceive TickType_t
| GPIOPinWrite uint8_t uint8_t

text \<open>
  Modelled from the spec: the tick at which a delayed task wakes up; the delay functions
  are part of the kernel, not of the source file. \<^verbatim>\<open>vTaskDelayUntil\<close> sleeps until the
  absolute time that is its first argument (the previous wake time) plus its second (the
  increment), and stores that time as the new previous wake time; \<^verbatim>\<open>vTaskDelay\<close>
  sleeps for a number of ticks counted from the moment of the call (\<open>now\<close>).
\<close>

fun wake_time :: "TickType_t \<Rightarrow> call \<Rightarrow> TickType_t option" where
  "wake_time now (VTaskDelayUntil xPreviousWakeTime xTimeIncrement) =
     Some (xPreviousWakeTime + xTimeIncrement)"
| "wake_time now (VTaskDelay xTicksToDelay) = Some (now + xTicksToDelay)"
| "wake_time now c = None"

text \<open>The outcome of \<^verbatim>\<open>xQueueSend\<close>, which the sending task receives and drops.\<close>

datatype BaseType_t = pdPASS | errQUEUE_FULL

text \<open>
  One round of the loop of \<^verbatim>\<open>prvQueueSendTask\<close>. It reads \<^verbatim>\<open>g_fSpeed\<close> (\<open>speed\<close>)
  and its local \<^verbatim>\<open>xNextWakeTime\<close>; the result is the calls made and the new
  \<^verbatim>\<open>xNextWakeTime\<close>, which \<^verbatim>\<open>vTaskDelayUntil\<close> updates through the pointer. \<open>sent\<close> is
  what \<^verbatim>\<open>xQueueSend\<close> returns. \<open>None\<close>: the conversion of the product to
  \<^verbatim>\<open>TickType_t\<close> is undefined.
\<close>

definition prvQueueSendTask_round ::
    "board \<Rightarrow> fp \<Rightarrow> BaseType_t \<Rightarrow> TickType_t \<Rightarrow> (call list \<times> TickType_t) option" where
  "prvQueueSendTask_round b speed sent xNextWakeTime =
     (case scaled_ticks (mainQUEUE_SEND_FREQUENCY_MS b) speed of
        None \<Rightarrow> None
      | Some xTimeIncrement \<Rightarrow>
          Some ([VTaskDelayUntil xNextWakeTime xTimeIncrement, XQueueSend 100 0],
                xNextWakeTime + xTimeIncrement))"

text \<open>
  The task, observed for as many rounds as the environment list is long; each round
  gets the value of \<^verbatim>\<open>g_fSpeed\<close> it reads and the outcome of its send. The first
  \<^verbatim>\<open>xNextWakeTime\<close> is the tick count at the start of the task.
\<close>

fun prvQueueSendTask :: "board \<Rightarrow> TickType_t \<Rightarrow> (fp \<times> BaseType_t) list \<Rightarrow> call list option" where
  "prvQueueSendTask b xNextWakeTime [] = Some []"
| "prvQueueSendTask b xNextWakeTime ((speed, sent) # env) =
     (case prvQueueSendTask_round b speed sent xNextWakeTime of
        None \<Rightarrow> None
      | Some (cs, xNextWakeTime') \<Rightarrow>
          (case prvQueueSendTask b xNextWakeTime' env of
             None \<Rightarrow> None
           | Some cs' \<Rightarrow> Some (cs @ cs')))"

text \<open>
  One round of the loop of \<^verbatim>\<open>prvQueueReceiveTask\<close>. \<open>received\<close> is the item that
  \<^verbatim>\<open>xQueueReceive\<close> copied to \<^verbatim>\<open>ulReceivedValue\<close>, or \<open>None\<close> when the call came back
  without one and left the variable as it was (the task does not look at the return
  value). The result is the calls made and the new \<^verbatim>\<open>ulReceivedValue\<close>.
\<close>

definition prvQueueReceiveTask_round ::
    "board \<Rightarrow> fp \<Rightarrow> uint32_t option \<Rightarrow> uint32_t \<Rightarrow> (call list \<times> uint32_t) option" where
  "prvQueueReceiveTask_round b speed received ulReceivedValue =
     (let v = (case received of Some x \<Rightarrow> x | None \<Rightarrow> ulReceivedValue)
      in if v = 100
         then (case scaled_ticks (xShortBlock b) speed of
                 None \<Rightarrow> None
               | Some xTicksToDelay \<Rightarrow>
                   Some ([XQueueReceive (portMAX_DELAY b),
                          GPIOPinWrite (BLUE_LED_PIN b OR RED_LED_PIN b) (BLUE_LED_PIN b),
                          VTaskDelay xTicksToDelay,
                          GPIOPinWrite (BLUE_LED_PIN b OR RED_LED_PIN b) (RED_LED_PIN b)],
                         0))
         else Some ([XQueueReceive (portMAX_DELAY b)], v))"

fun prvQueueReceiveTask ::
    "board \<Rightarrow> uint32_t \<Rightarrow> (fp \<times> uint32_t option) list \<Rightarrow> call list option" where
  "prvQueueReceiveTask b ulReceivedValue [] = Some []"
| "prvQueueReceiveTask b ulReceivedValue ((speed, received) # env) =
     (case prvQueueReceiveTask_round b speed received ulReceivedValue of
        None \<Rightarrow> None
      | Some (cs, ulReceivedValue') \<Rightarrow>
          (case prvQueueReceiveTask b ulReceivedValue' env of
             None \<Rightarrow> None
           | Some cs' \<Rightarrow> Some (cs @ cs')))"

fun is_send :: "call \<Rightarrow> bool" where
  "is_send (XQueueSend v t) = True"
| "is_send c = False"

fun is_relative_delay :: "call \<Rightarrow> bool" where
  "is_relative_delay (VTaskDelay d) = True"
| "is_relative_delay c = False"

text \<open>
  The calls of rounds of the sending task that start with the previous wake time \<open>w\<close>
  and use the time increments \<open>ds\<close>.
\<close>

fun producer_calls :: "TickType_t \<Rightarrow> TickType_t list \<Rightarrow> call list" where
  "producer_calls w [] = []"
| "producer_calls w (d # ds) =
     VTaskDelayUntil w d # XQueueSend 100 0 # producer_calls (w + d) ds"

section \<open>The queue\<close>

text \<open>
  Modelled from the spec: the bounded queue of the kernel (\<^verbatim>\<open>xQueueCreate\<close>,
  \<^verbatim>\<open>xQueueSend\<close>, \<^verbatim>\<open>xQueueReceive\<close>), whose code is not part of the source file. The
  spec gives the contract \<^verbatim>\<open>send(item, timeout) -> Ok | Err(WouldBlock | TimedOut)\<close> and
  \<^verbatim>\<open>receive(timeout) -> Ok(item) | Err(WouldBlock | TimedOut)\<close> with a capacity fixed
  at construction: a send with timeout 0 on a full queue fails at once with
  \<^verbatim>\<open>WouldBlock\<close>, a receive with an infinite timeout blocks until an item is there.
  A call is looked at after it has waited \<open>waited\<close> ticks: it has either returned
  (\<open>Some\<close>) or its caller is still blocked (\<open>None\<close>).
\<close>

record 'a BoundedQueue =
  capacity :: nat
  items :: "'a list"

datatype timeout = NoWait | Ticks nat | Forever

datatype queue_error = WouldBlock | TimedOut

datatype 'a result = Ok 'a | Err queue_error

definition xQueueCreate :: "nat \<Rightarrow> 'a BoundedQueue" where
  "xQueueCreate uxQueueLength = \<lparr>capacity = uxQueueLength, items = []\<rparr>"

fun expired :: "timeout \<Rightarrow> nat \<Rightarrow> queue_error option" where
  "expired NoWait waited = Some WouldBlock"
| "expired (Ticks n) waited = (if n \<le> waited then Some TimedOut else None)"
| "expired Forever waited = None"

definition send :: "'a \<Rightarrow> timeout \<Rightarrow> nat \<Rightarrow> 'a BoundedQueue \<Rightarrow> unit result option \<times> 'a BoundedQueue" where
  "send item t waited q =
     (if length (items q) < capacity q
      then (Some (Ok ()), q\<lparr>items := items q @ [item]\<rparr>)
      else (map_option Err (expired t waited), q))"

definition receive :: "timeout \<Rightarrow> nat \<Rightarrow> 'a BoundedQueue \<Rightarrow> 'a result option \<times> 'a BoundedQueue" where
  "receive t waited q =
     (case items q of
        x # xs \<Rightarrow> (Some (Ok x), q\<lparr>items := xs\<rparr>)
      | [] \<Rightarrow> (map_option Err (expired t waited), q))"

text \<open>
  Modelled from the spec: the meaning of a block time given in ticks, as the tasks pass
  it: 0 does not wait, \<^verbatim>\<open>portMAX_DELAY\<close> waits for ever.
\<close>

definition timeout_of :: "board \<Rightarrow> TickType_t \<Rightarrow> timeout" where
  "timeout_of b xTicksToWait =
     (if xTicksToWait = 0 then NoWait
      else if xTicksToWait = portMAX_DELAY b then Forever
      else Ticks (unat xTicksToWait))"

text \<open>Any sequence of sends and receives on a queue.\<close>

datatype 'a queue_op = Send 'a timeout nat | Receive timeout nat

fun queue_step :: "'a queue_op \<Rightarrow> 'a BoundedQueue \<Rightarrow> 'a BoundedQueue" where
  "queue_step (Send item t waited) q = snd (send item t waited q)"
| "queue_step (Receive t waited) q = snd (receive t waited q)"

fun queue_run :: "'a queue_op list \<Rightarrow> 'a BoundedQueue \<Rightarrow> 'a BoundedQueue" where
  "queue_run [] q = q"
| "queue_run (op # ops) q = queue_run ops (queue_step op q)"

text \<open>The queue of the application: \<^verbatim>\<open>xQueue = xQueueCreate( 1, sizeof( uint32_t ) )\<close>.\<close>

definition xQueue :: "uint32_t BoundedQueue" where
  "xQueue = xQueueCreate 1"

section \<open>Sequences of accepted presses\<close>

text \<open>
  An interrupt that passes the debounce test either takes the first branch (the rate
  factor is multiplied by \<^verbatim>\<open>(1 + BLINK_RATE)\<close>: a "speed up" event), the second one
  (\<^verbatim>\<open>(1 - BLINK_RATE)\<close>: a "speed down" event) or none.
\<close>

datatype press = SpeedUp | SlowDown

text \<open>The factor of an event in exact arithmetic.\<close>

fun factor :: "press \<Rightarrow> rat" where
  "factor SpeedUp = 11 / 10"
| "factor SlowDown = 9 / 10"

text \<open>The assignment that the handler makes for an event.\<close>

fun press_update :: "press \<Rightarrow> fp \<Rightarrow> fp" where
  "press_update SpeedUp f = float_mul_assign f one_plus_BLINK_RATE"
| "press_update SlowDown f = float_mul_assign f one_minus_BLINK_RATE"

text \<open>The rate factor after a sequence of events, and what it would be in exact arithmetic.\<close>

fun rate_after :: "press list \<Rightarrow> fp \<Rightarrow> fp" where
  "rate_after [] f = f"
| "rate_after (p # ps) f = rate_after ps (press_update p f)"

fun ideal_rate :: "press list \<Rightarrow> rat" where
  "ideal_rate [] = 1"
| "ideal_rate (p # ps) = factor p * ideal_rate ps"

text \<open>The events of a sequence of interrupts that all pass the debounce test.\<close>

fun presses :: "board \<Rightarrow> irq list \<Rightarrow> press list" where
  "presses b [] = []"
| "presses b (i # is) =
     (if ui32Status i AND RIGHT_BUTTON b = RIGHT_BUTTON b then SpeedUp # presses b is
      else if ui32Status i AND LEFT_BUTTON b = LEFT_BUTTON b then SlowDown # presses b is
      else presses b is)"

text \<open>
  Every interrupt of the sequence is tested more than 200 ticks after the time stamp
  left by the one before it (\<open>ts\<close> for the first).
\<close>

fun all_accepted :: "TickType_t \<Rightarrow> irq list \<Rightarrow> bool" where
  "all_accepted ts [] = True"
| "all_accepted ts (i # is) =
     (200 < xTickAtTest i - ts \<and> all_accepted (xTickAtStamp i) is)"

text \<open>The numbers of "speed up" and of "speed down" events of a sequence of interrupts.\<close>

definition speed_ups :: "board \<Rightarrow> irq list \<Rightarrow> nat" where
  "speed_ups b irqs = count_list (presses b irqs) SpeedUp"

definition slow_downs :: "board \<Rightarrow> irq list \<Rightarrow> nat" where
  "slow_downs b irqs = count_list (presses b irqs) SlowDown"

text \<open>A floating-point datum is a number that differs from \<open>x\<close> by at most \<open>tol\<close>.\<close>

definition close_to :: "fp \<Rightarrow> rat \<Rightarrow> rat \<Rightarrow> bool" where
  "close_to f x tol = (case f of Finite v \<Rightarrow> \<bar>v - x\<bar> \<le> tol | _ \<Rightarrow> False)"

text \<open>\<open>n\<close> interrupts with the status \<open>st\<close>, one every 1000 ticks from tick \<open>t\<close> on.\<close>

fun press_train :: "nat \<Rightarrow> TickType_t \<Rightarrow> uint32_t \<Rightarrow> irq list" where
  "press_train 0 t st = []"
| "press_train (Suc n) t st = irq_at st t # press_train n (t + 1000) st"

section \<open>The binary exponent and rounding\<close>

lemma pow2_powi: "pow2 e = 2 powi e"
  by (simp add: pow2_def power_int_def inverse_eq_divide power_one_over)

lemma pow2_pos: "0 < pow2 e"
  by (simp add: pow2_powi)

lemma pow2_strict_mono: "a < b \<Longrightarrow> pow2 a < pow2 b"
  by (simp add: pow2_powi power_int_strict_increasing)

lemma pow2_mono: "a \<le> b \<Longrightarrow> pow2 a \<le> pow2 b"
  by (simp add: pow2_powi power_int_increasing)

lemma pow2_less_iff: "pow2 a < pow2 b \<longleftrightarrow> a < b"
proof
  assume "pow2 a < pow2 b"
  show "a < b"
  proof (rule ccontr)
    assume "\<not> a < b"
    then have "pow2 b \<le> pow2 a" by (simp add: pow2_mono)
    with \<open>pow2 a < pow2 b\<close> show False by simp
  qed
qed (rule pow2_strict_mono)

lemma floor_numeral_div:
  "\<lfloor>numeral a / numeral b :: rat\<rfloor> = numeral a div numeral b"
  using floor_divide_of_int_eq [of "numeral a" "numeral b", where ?'a = rat] by simp

lemma pow2_add: "pow2 (a + b) = pow2 a * pow2 b"
  by (simp add: pow2_powi power_int_add)

lemma pow2_of_nat: "pow2 (int n) = 2 ^ n"
  by (simp add: pow2_def)

lemma of_int_bitlen_bounds:
  assumes "0 < a"
  shows "pow2 (bitlen a - 1) \<le> of_int a" and "of_int a < pow2 (bitlen a)"
proof -
  from assms have pos: "1 \<le> bitlen a" by (auto simp: bitlen_alt_def)
  from bitlen_bounds [OF assms]
  have lo: "2 ^ nat (bitlen a - 1) \<le> a" and hi: "a < 2 ^ nat (bitlen a)" by simp_all
  from lo have "(of_int (2 ^ nat (bitlen a - 1)) :: rat) \<le> of_int a"
    by (simp only: of_int_le_iff)
  with pos show "pow2 (bitlen a - 1) \<le> of_int a" by (simp add: pow2_def)
  from hi have "(of_int a :: rat) < of_int (2 ^ nat (bitlen a))"
    by (simp only: of_int_less_iff)
  with pos show "of_int a < pow2 (bitlen a)" by (simp add: pow2_def)
qed

lemma ilog2_bounds:
  assumes "0 < x"
  shows "pow2 (ilog2 x) \<le> x" and "x < pow2 (ilog2 x + 1)"
proof -
  obtain a b where q: "quotient_of x = (a, b)" by (cases "quotient_of x")
  then have b: "0 < b" and x: "x = of_int a / of_int b"
    by (simp_all add: quotient_of_denom_pos quotient_of_div)
  from assms x b have a: "0 < a" by (simp add: zero_less_divide_iff)
  let ?k = "bitlen a - bitlen b"
  note A = of_int_bitlen_bounds [OF a] and B = of_int_bitlen_bounds [OF b]
  have bpos: "(0::rat) < of_int b" using b by simp
  have "pow2 (?k - 1) * of_int b < pow2 (?k - 1) * pow2 (bitlen b)"
    using B(2) pow2_pos by simp
  also have "\<dots> = pow2 (bitlen a - 1)"
    by (simp add: pow2_add [symmetric])
  also have "\<dots> \<le> of_int a" by (rule A(1))
  finally have lo: "pow2 (?k - 1) < x"
    using bpos by (simp add: x pos_less_divide_eq)
  have "of_int a < pow2 (bitlen a)" by (rule A(2))
  also have "\<dots> = pow2 (?k + 1) * pow2 (bitlen b - 1)"
    by (simp add: pow2_add [symmetric])
  also have "\<dots> \<le> pow2 (?k + 1) * of_int b"
    using B(1) pow2_pos by simp
  finally have hi: "x < pow2 (?k + 1)"
    using bpos by (simp add: x pos_divide_less_eq)
  have eq: "ilog2 x = (if pow2 ?k \<le> x then ?k else ?k - 1)"
    by (simp add: ilog2_def q Let_def)
  show "pow2 (ilog2 x) \<le> x" using lo by (simp add: eq)
  show "x < pow2 (ilog2 x + 1)" using hi by (simp add: eq not_le)
qed

lemma ilog2_unique:
  assumes "0 < x" and "pow2 e \<le> x" and "x < pow2 (e + 1)"
  shows "ilog2 x = e"
proof -
  from ilog2_bounds [OF assms(1)] assms(2,3)
  have "pow2 (ilog2 x) < pow2 (e + 1)" and "pow2 e < pow2 (ilog2 x + 1)"
    by simp_all
  then have "ilog2 x < e + 1" and "e < ilog2 x + 1"
    by (simp_all only: pow2_less_iff)
  then show ?thesis by simp
qed

lemma fp_round_binade:
  assumes "x \<noteq> 0" and "pow2 e \<le> \<bar>x\<bar>" and "\<bar>x\<bar> < pow2 (e + 1)"
  shows "fp_round fmt x =
     (let e' = max e (1 - emax fmt);
          q = pow2 (e' - int (prec fmt) + 1);
          n = round_half_even (\<bar>x\<bar> / q)
      in if emax fmt < e' \<or> (e' = emax fmt \<and> 2 ^ prec fmt \<le> n)
         then (if 0 < x then PInf else NInf)
         else Finite (sgn x * (of_int n * q)))"
proof -
  from assms(1) have "0 < \<bar>x\<bar>" by simp
  then have "ilog2 \<bar>x\<bar> = e" using assms(2,3) by (rule ilog2_unique)
  with assms(1) show ?thesis by (simp add: fp_round_def)
qed

section \<open>Values of the floating-point constants\<close>

lemma BLINK_RATE_value:
  "BLINK_RATE = Finite (3602879701896397 / 36028797018963968)"
  by (simp add: BLINK_RATE_def fp_round_binade [where e = "-4"] binary64_def pow2_def
      round_half_even_def Let_def floor_numeral_div)

lemma one_plus_BLINK_RATE_value:
  "one_plus_BLINK_RATE = Finite (2476979795053773 / 2251799813685248)"
  by (simp add: one_plus_BLINK_RATE_def BLINK_RATE_value fp_round_binade [where e = 0]
      binary64_def pow2_def round_half_even_def Let_def floor_numeral_div)

lemma one_minus_BLINK_RATE_value:
  "one_minus_BLINK_RATE = Finite (8106479329266893 / 9007199254740992)"
  by (simp add: one_minus_BLINK_RATE_def fp_sub_def BLINK_RATE_value
      fp_round_binade [where e = "-1"]
      binary64_def pow2_def round_half_even_def Let_def floor_numeral_div)

text \<open>
  Starting from 1, one multiplication by \<^verbatim>\<open>(1 + BLINK_RATE)\<close> gives the \<^verbatim>\<open>float\<close>
  nearest to 1.1, one by \<^verbatim>\<open>(1 - BLINK_RATE)\<close> the one nearest to 0.9, and one after the
  other the one nearest to 0.99.
\<close>

lemma speed_up_from_1:
  "float_mul_assign (Finite 1) one_plus_BLINK_RATE = Finite (9227469 / 8388608)"
  by (simp add: float_mul_assign_def one_plus_BLINK_RATE_value fp_round_binade [where e = 0]
      binary64_def binary32_def pow2_def round_half_even_def Let_def floor_numeral_div)

lemma slow_down_from_1:
  "float_mul_assign (Finite 1) one_minus_BLINK_RATE = Finite (7549747 / 8388608)"
  by (simp add: float_mul_assign_def one_minus_BLINK_RATE_value
      fp_round_binade [where e = "-1"]
      binary64_def binary32_def pow2_def round_half_even_def Let_def floor_numeral_div)

lemma slow_down_from_speed_up:
  "float_mul_assign (Finite (9227469 / 8388608)) one_minus_BLINK_RATE
     = Finite (4152361 / 4194304)"
  by (simp add: float_mul_assign_def one_minus_BLINK_RATE_value
      fp_round_binade [where e = "-1"]
      binary64_def binary32_def pow2_def round_half_even_def Let_def floor_numeral_div)

lemma float_11_10: "fp_round binary32 (11 / 10) = Finite (9227469 / 8388608)"
  by (simp add: fp_round_binade [where e = 0]
      binary32_def pow2_def round_half_even_def Let_def floor_numeral_div)

lemma float_9_10: "fp_round binary32 (9 / 10) = Finite (7549747 / 8388608)"
  by (simp add: fp_round_binade [where e = "-1"]
      binary32_def pow2_def round_half_even_def Let_def floor_numeral_div)

lemma float_99_100: "fp_round binary32 (99 / 100) = Finite (4152361 / 4194304)"
  by (simp add: fp_round_binade [where e = "-1"]
      binary32_def pow2_def round_half_even_def Let_def floor_numeral_div)

section \<open>The rounding error of one multiplication\<close>

text \<open>
  Rounding a number of the normal range changes it by at most the fraction
  \<open>2 ^ - prec\<close> of itself, unless the result is an infinity. Hence \<^verbatim>\<open>f *= d\<close> gives
  the exact product \<open>f * d\<close> up to the two roundings, and for the two constants of the
  handler the exact product with 1.1 or 0.9 up to the fraction \<open>2 ^ - 23\<close>.
\<close>

lemma round_half_even_error: "\<bar>of_int (round_half_even r) - r\<bar> \<le> 1 / 2"
proof -
  have "of_int \<lfloor>r\<rfloor> \<le> r" and "r < of_int \<lfloor>r\<rfloor> + 1" by linarith+
  then show ?thesis
    by (auto simp: round_half_even_def Let_def)
qed

lemma round_half_even_le: "r \<le> of_int m \<Longrightarrow> round_half_even r \<le> m"
proof -
  assume le: "r \<le> of_int m"
  then have f: "\<lfloor>r\<rfloor> \<le> m" by (simp add: floor_le_iff)
  show ?thesis
  proof (cases "\<lfloor>r\<rfloor> = m")
    case True
    with le have "r - of_int \<lfloor>r\<rfloor> \<le> 0" by simp
    then show ?thesis using True by (simp add: round_half_even_def Let_def)
  next
    case False
    with f have "\<lfloor>r\<rfloor> + 1 \<le> m" by simp
    then show ?thesis by (simp add: round_half_even_def Let_def)
  qed
qed

lemma fp_round_normal:
  assumes low: "pow2 (1 - emax fmt) \<le> x"
  shows "fp_round fmt x = PInf \<or>
         (\<exists>y. fp_round fmt x = Finite y \<and> \<bar>y - x\<bar> \<le> x * pow2 (- int (prec fmt))
              \<and> y < pow2 (emax fmt + 1))"
    and "x < pow2 (emax fmt) \<Longrightarrow>
         \<exists>y. fp_round fmt x = Finite y \<and> \<bar>y - x\<bar> \<le> x * pow2 (- int (prec fmt))"
proof -
  from low pow2_pos [of "1 - emax fmt"] have pos: "0 < x" by simp
  define e where "e = ilog2 x"
  define q where "q = pow2 (e - int (prec fmt) + 1)"
  define n where "n = round_half_even (x / q)"
  have e_lo: "pow2 e \<le> x" and e_hi: "x < pow2 (e + 1)"
    unfolding e_def using ilog2_bounds [OF pos] by simp_all
  from low e_hi have "pow2 (1 - emax fmt) < pow2 (e + 1)" by simp
  then have emin: "1 - emax fmt \<le> e" by (simp add: pow2_less_iff)
  have qpos: "0 < q" by (simp add: q_def pow2_pos)
  have half: "q / 2 = pow2 e * pow2 (- int (prec fmt))"
  proof -
    have "e - int (prec fmt) + 1 = (e + (- int (prec fmt))) + 1" by simp
    then have "q = pow2 e * pow2 (- int (prec fmt)) * pow2 1"
      unfolding q_def by (simp only: pow2_add)
    moreover have "pow2 1 = 2" by (simp add: pow2_def)
    ultimately show ?thesis by simp
  qed
  have top: "pow2 (e + 1) = 2 ^ prec fmt * q"
  proof -
    have "pow2 (int (prec fmt)) * q = pow2 (e + 1)"
      by (simp add: q_def pow2_add [symmetric])
    then show ?thesis by (simp add: pow2_of_nat)
  qed
  have "\<bar>of_int n - x / q\<bar> \<le> 1 / 2"
    unfolding n_def by (rule round_half_even_error)
  then have "\<bar>of_int n - x / q\<bar> * q \<le> 1 / 2 * q"
    using qpos by (simp only: mult_le_cancel_right_pos)
  moreover have "\<bar>of_int n - x / q\<bar> * q = \<bar>of_int n * q - x\<bar>"
  proof -
    have "\<bar>of_int n - x / q\<bar> * q = \<bar>(of_int n - x / q) * q\<bar>"
      using qpos by (simp add: abs_mult)
    also have "(of_int n - x / q) * q = of_int n * q - x"
      using qpos by (simp add: field_simps)
    finally show ?thesis .
  qed
  ultimately have "\<bar>of_int n * q - x\<bar> \<le> q / 2" by simp
  also have "\<dots> \<le> x * pow2 (- int (prec fmt))"
    unfolding half using e_lo pow2_pos [of "- int (prec fmt)"]
    by (simp only: mult_le_cancel_right_pos)
  finally have err: "\<bar>of_int n * q - x\<bar> \<le> x * pow2 (- int (prec fmt))" .
  have "x / q \<le> of_int (2 ^ prec fmt)"
    using e_hi qpos by (simp add: top pos_divide_le_eq)
  then have n_hi: "n \<le> 2 ^ prec fmt"
    unfolding n_def by (rule round_half_even_le)
  have val: "fp_round fmt x =
      (if emax fmt < e \<or> (e = emax fmt \<and> 2 ^ prec fmt \<le> n) then PInf
       else Finite (of_int n * q))"
    using pos emin by (simp add: fp_round_def e_def [symmetric] q_def [symmetric]
        n_def [symmetric] Let_def max_def)
  show "fp_round fmt x = PInf \<or>
         (\<exists>y. fp_round fmt x = Finite y \<and> \<bar>y - x\<bar> \<le> x * pow2 (- int (prec fmt))
              \<and> y < pow2 (emax fmt + 1))"
  proof (cases "emax fmt < e \<or> (e = emax fmt \<and> 2 ^ prec fmt \<le> n)")
    case True
    then show ?thesis by (simp add: val)
  next
    case False
    then have e_le: "e \<le> emax fmt" and n_lt: "e = emax fmt \<longrightarrow> n < 2 ^ prec fmt"
      by auto
    have "of_int n * q < pow2 (emax fmt + 1)"
    proof (cases "e = emax fmt")
      case True
      with n_lt have "(of_int n :: rat) < of_int (2 ^ prec fmt)"
        by (simp only: of_int_less_iff)
      then have "of_int n * q < 2 ^ prec fmt * q"
        using qpos by simp
      then show ?thesis by (simp add: top [symmetric] True)
    next
      case False
      with e_le have "e + 1 \<le> emax fmt" by simp
      then have "pow2 (e + 1) \<le> pow2 (emax fmt)" by (rule pow2_mono)
      moreover have "pow2 (emax fmt) < pow2 (emax fmt + 1)"
        by (simp add: pow2_strict_mono)
      moreover from n_hi have "(of_int n :: rat) \<le> of_int (2 ^ prec fmt)"
        by (simp only: of_int_le_iff)
      then have "of_int n * q \<le> 2 ^ prec fmt * q"
        using qpos by simp
      ultimately show ?thesis by (simp add: top [symmetric])
    qed
    with False err show ?thesis by (simp add: val)
  qed
  show "\<exists>y. fp_round fmt x = Finite y \<and> \<bar>y - x\<bar> \<le> x * pow2 (- int (prec fmt))"
    if "x < pow2 (emax fmt)"
  proof -
    from e_lo that have "pow2 e < pow2 (emax fmt)" by simp
    then have "e < emax fmt" by (simp add: pow2_less_iff)
    then show ?thesis using err by (simp add: val)
  qed
qed

lemma two_roundings:
  fixes x y1 y2 a b :: rat
  assumes x: "0 < x" and a: "0 \<le> a" "a \<le> 1" and b: "0 \<le> b" "b \<le> 1"
    and r1: "\<bar>y1 - x\<bar> \<le> x * a" and r2: "\<bar>y2 - y1\<bar> \<le> y1 * b"
  shows "x * ((1 - a) * (1 - b)) \<le> y2" and "y2 \<le> x * ((1 + a) * (1 + b))"
proof -
  from r1 have y1_lo: "x * (1 - a) \<le> y1" and y1_hi: "y1 \<le> x * (1 + a)"
    by (simp_all add: algebra_simps abs_le_iff)
  from r2 have y2_lo: "y1 * (1 - b) \<le> y2" and y2_hi: "y2 \<le> y1 * (1 + b)"
    by (simp_all add: algebra_simps abs_le_iff)
  have "x * (1 - a) * (1 - b) \<le> y1 * (1 - b)"
    using y1_lo b by (simp add: mult_right_mono)
  with y2_lo show "x * ((1 - a) * (1 - b)) \<le> y2" by (simp add: mult.assoc)
  have "y1 * (1 + b) \<le> x * (1 + a) * (1 + b)"
    using y1_hi b by (simp add: mult_right_mono)
  with y2_hi show "y2 \<le> x * ((1 + a) * (1 + b))" by (simp add: mult.assoc)
qed

lemma float_mul_assign_normal:
  assumes v: "pow2 (- 125) \<le> v" "v \<le> pow2 125"
    and c: "3 / 4 \<le> c" "c \<le> 3 / 2"
  shows "\<exists>v'. float_mul_assign (Finite v) (Finite c) = Finite v'
           \<and> v * c * ((1 - 1 / 2 ^ 53) * (1 - 1 / 2 ^ 24)) \<le> v'
           \<and> v' \<le> v * c * ((1 + 1 / 2 ^ 53) * (1 + 1 / 2 ^ 24))"
proof -
  define x where "x = v * c"
  define L where "L = pow2 (- 125)"
  define H where "H = pow2 125"
  define a :: rat where "a = 1 / 2 ^ 53"
  define b :: rat where "b = 1 / 2 ^ 24"
  have a: "0 \<le> a" "a \<le> 1" "a \<le> 1 / 4" and b: "0 \<le> b" "b \<le> 1"
    by (simp_all add: a_def b_def)
  have Lpos: "0 < L" by (simp add: L_def pow2_pos)
  have p126: "pow2 (- 126) = L / 2" and p127: "pow2 127 = 4 * H"
    by (simp_all add: pow2_def L_def H_def)
  from v Lpos have vpos: "0 < v" and vL: "L \<le> v" and vH: "v \<le> H"
    by (simp_all add: L_def H_def)
  have "v * (3 / 4) \<le> v * c" using c(1) vpos by (simp only: mult_le_cancel_left_pos)
  then have x_lo: "3 / 4 * v \<le> x" by (simp add: x_def)
  have "v * c \<le> v * (3 / 2)" using c(2) vpos by (simp only: mult_le_cancel_left_pos)
  then have x_hi: "x \<le> 3 / 2 * v" by (simp add: x_def)
  from x_lo vpos have xpos: "0 < x" by simp
  have "pow2 (1 - emax binary64) \<le> pow2 (- 126)"
    by (rule pow2_mono) (simp add: binary64_def)
  also have "\<dots> \<le> x" using x_lo vL Lpos by (simp add: p126)
  finally have lo64: "pow2 (1 - emax binary64) \<le> x" .
  have "x < pow2 127" using x_hi vH vpos by (simp add: p127)
  also have "\<dots> < pow2 (emax binary64)"
    by (rule pow2_strict_mono) (simp add: binary64_def)
  finally have hi64: "x < pow2 (emax binary64)" .
  have pa: "pow2 (- int (prec binary64)) = a" and pb: "pow2 (- int (prec binary32)) = b"
    by (simp_all add: binary64_def binary32_def pow2_def a_def b_def)
  from fp_round_normal(2) [OF lo64 hi64]
  obtain y1 where y1: "fp_round binary64 x = Finite y1" and e1: "\<bar>y1 - x\<bar> \<le> x * a"
    unfolding pa by blast
  have "x * a \<le> x * (1 / 4)" using a(3) xpos by (simp only: mult_le_cancel_left_pos)
  with e1 have y1_lo: "3 / 4 * x \<le> y1" and y1_hi: "y1 \<le> 5 / 4 * x"
    by (simp_all add: abs_le_iff)
  have "L / 2 \<le> y1" using y1_lo x_lo vL Lpos by simp
  then have lo32: "pow2 (1 - emax binary32) \<le> y1" by (simp add: binary32_def p126)
  have "y1 < 4 * H" using y1_hi x_hi vH vpos by simp
  then have hi32: "y1 < pow2 (emax binary32)" by (simp add: binary32_def p127)
  from fp_round_normal(2) [OF lo32 hi32]
  obtain y2 where y2: "fp_round binary32 y1 = Finite y2" and e2: "\<bar>y2 - y1\<bar> \<le> y1 * b"
    unfolding pb by blast
  note bounds = two_roundings [OF xpos a(1,2) b e1 e2]
  show ?thesis
  proof (intro exI conjI)
    show "float_mul_assign (Finite v) (Finite c) = Finite y2"
      by (simp add: float_mul_assign_def x_def [symmetric] y1 y2)
    show "v * c * ((1 - 1 / 2 ^ 53) * (1 - 1 / 2 ^ 24)) \<le> y2"
      using bounds(1) by (simp only: x_def a_def b_def)
    show "y2 \<le> v * c * ((1 + 1 / 2 ^ 53) * (1 + 1 / 2 ^ 24))"
      using bounds(2) by (simp only: x_def a_def b_def)
  qed
qed

lemma press_update_normal:
  assumes v: "pow2 (- 125) \<le> v" "v \<le> pow2 125"
  shows "\<exists>v'. press_update p (Finite v) = Finite v'
           \<and> v * factor p * (1 - 1 / 2 ^ 23) \<le> v'
           \<and> v' \<le> v * factor p * (1 + 1 / 2 ^ 23)"
proof -
  from v(1) pow2_pos [of "- 125"] have vpos: "0 < v" by simp
  obtain c where c: "press_update p (Finite v) = float_mul_assign (Finite v) (Finite c)"
    and range: "3 / 4 \<le> c" "c \<le> 3 / 2"
    and lo: "factor p * (1 - 1 / 2 ^ 23) \<le> c * ((1 - 1 / 2 ^ 53) * (1 - 1 / 2 ^ 24))"
    and hi: "c * ((1 + 1 / 2 ^ 53) * (1 + 1 / 2 ^ 24)) \<le> factor p * (1 + 1 / 2 ^ 23)"
    by (cases p) (simp_all add: one_plus_BLINK_RATE_value one_minus_BLINK_RATE_value)
  from float_mul_assign_normal [OF v range]
  obtain v' where v': "float_mul_assign (Finite v) (Finite c) = Finite v'"
    and b1: "v * c * ((1 - 1 / 2 ^ 53) * (1 - 1 / 2 ^ 24)) \<le> v'"
    and b2: "v' \<le> v * c * ((1 + 1 / 2 ^ 53) * (1 + 1 / 2 ^ 24))"
    by blast
  have "v * (factor p * (1 - 1 / 2 ^ 23)) \<le> v * (c * ((1 - 1 / 2 ^ 53) * (1 - 1 / 2 ^ 24)))"
    using lo vpos by (simp only: mult_le_cancel_left_pos)
  also have "\<dots> \<le> v'" using b1 by (simp only: mult.assoc)
  finally have lower: "v * factor p * (1 - 1 / 2 ^ 23) \<le> v'" by (simp only: mult.assoc)
  have "v' \<le> v * (c * ((1 + 1 / 2 ^ 53) * (1 + 1 / 2 ^ 24)))"
    using b2 by (simp only: mult.assoc)
  also have "\<dots> \<le> v * (factor p * (1 + 1 / 2 ^ 23))"
    using hi vpos by (simp only: mult_le_cancel_left_pos)
  finally have upper: "v' \<le> v * factor p * (1 + 1 / 2 ^ 23)" by (simp only: mult.assoc)
  show ?thesis
  proof (intro exI conjI)
    show "press_update p (Finite v) = Finite v'" by (simp only: c v')
  qed (rule lower, rule upper)
qed

section \<open>The button interrupt handler\<close>

lemma handler_stamp: "g_ui32TimeStamp (xButtonsHandler b i s) = xTickAtStamp i"
  by (simp add: xButtonsHandler_def Let_def)

lemma handler_discard:
  "xTickAtTest i - g_ui32TimeStamp s \<le> 200 \<Longrightarrow>
   g_fSpeed (xButtonsHandler b i s) = g_fSpeed s"
  by (simp add: xButtonsHandler_def Let_def not_less [symmetric])

lemma handler_accept:
  "200 < xTickAtTest i - g_ui32TimeStamp s \<Longrightarrow>
   g_fSpeed (xButtonsHandler b i s) =
     (if ui32Status i AND RIGHT_BUTTON b = RIGHT_BUTTON b
      then float_mul_assign (g_fSpeed s) one_plus_BLINK_RATE
      else if ui32Status i AND LEFT_BUTTON b = LEFT_BUTTON b
      then float_mul_assign (g_fSpeed s) one_minus_BLINK_RATE
      else g_fSpeed s)"
  by (simp add: xButtonsHandler_def Let_def)

lemma serve_within_window:
  "within_window (g_ui32TimeStamp s) is \<Longrightarrow> g_fSpeed (serve b is s) = g_fSpeed s"
proof (induction "is" arbitrary: s)
  case Nil
  show ?case by simp
next
  case (Cons i "is")
  from Cons.prems have near: "xTickAtTest i - g_ui32TimeStamp s \<le> 200"
    and rest: "within_window (xTickAtStamp i) is" by simp_all
  from rest have "within_window (g_ui32TimeStamp (xButtonsHandler b i s)) is"
    by (simp add: handler_stamp)
  then have "g_fSpeed (serve b is (xButtonsHandler b i s)) = g_fSpeed (xButtonsHandler b i s)"
    by (rule Cons.IH)
  with near show ?case by (simp add: handler_discard)
qed

lemma serve_stamp:
  "is \<noteq> [] \<Longrightarrow> g_ui32TimeStamp (serve b is s) = xTickAtStamp (last is)"
  by (induction "is" arbitrary: s) (auto simp: handler_stamp)

lemma early_within_window: "early t is \<Longrightarrow> within_window t is"
proof (induction "is" arbitrary: t)
  case Nil
  show ?case by simp
next
  case (Cons i "is")
  from Cons.prems have le: "t \<le> xTickAtTest i" and b: "xTickAtTest i \<le> 200"
    and rest: "early (xTickAtStamp i) is" by simp_all
  have "xTickAtTest i - t \<le> xTickAtTest i"
    using le by (simp add: word_sub_le)
  from this b have "xTickAtTest i - t \<le> 200" by (rule order_trans)
  with Cons.IH [OF rest] show ?case by simp
qed

text \<open>
  C1. Whenever the tick count read at the debounce test is at most 200 ticks after
  \<^verbatim>\<open>g_ui32TimeStamp\<close> (an unsigned 32-bit difference), the handler leaves
  \<^verbatim>\<open>g_fSpeed\<close> as it was. Hence of two interrupts, the second of which is tested at
  most 200 ticks after the time stamp of the first, the second changes nothing: the
  rate factor after both is the rate factor after the first, so the pair causes at most
  the one update of the first.
\<close>

theorem debounce_discards:
  "(xTickAtTest i - g_ui32TimeStamp s \<le> 200 \<longrightarrow>
      g_fSpeed (xButtonsHandler b i s) = g_fSpeed s)
   \<and> (xTickAtTest i2 - xTickAtStamp i1 \<le> 200 \<longrightarrow>
      g_fSpeed (serve b [i1, i2] s) = g_fSpeed (xButtonsHandler b i1 s))"
  by (simp add: handler_discard handler_stamp)

theorem debounce_discards_witness:
  "xTickAtTest (irq_at 0x01 100) - g_ui32TimeStamp initial_globals \<le> 200
   \<and> g_fSpeed (xButtonsHandler ek_tm4c123gxl (irq_at 0x01 100) initial_globals) = Finite 1
   \<and> xTickAtTest (irq_at 0x01 1150) - xTickAtStamp (irq_at 0x01 1000) \<le> 200
   \<and> g_fSpeed (serve ek_tm4c123gxl [irq_at 0x01 1000, irq_at 0x01 1150] initial_globals)
       = Finite (9227469 / 8388608)
   \<and> g_fSpeed (xButtonsHandler ek_tm4c123gxl (irq_at 0x01 1000) initial_globals)
       = Finite (9227469 / 8388608)"
  using debounce_discards [where i = "irq_at 0x01 100" and s = initial_globals
      and b = ek_tm4c123gxl and ?i1.0 = "irq_at 0x01 1000" and ?i2.0 = "irq_at 0x01 1150"]
  by (simp add: xButtonsHandler_def ek_tm4c123gxl_def irq_at_def initial_globals_def
      speed_up_from_1)

text \<open>
  C2. Every run of the handler ends with \<^verbatim>\<open>g_ui32TimeStamp\<close> equal to the tick count
  read by its last statement, whether or not the event was discarded. Hence a train of
  interrupts, each tested at most 200 ticks after the time stamp of the one before,
  never changes the rate factor, however long the train lasts, and leaves the time stamp
  of its last interrupt; and a run that does change the rate factor was tested more
  than 200 ticks after the time stamp left by the run before it.
\<close>

theorem stamp_unconditional:
  "g_ui32TimeStamp (xButtonsHandler b i s) = xTickAtStamp i
   \<and> (within_window (g_ui32TimeStamp s) irqs \<longrightarrow>
        g_fSpeed (serve b irqs s) = g_fSpeed s
        \<and> (irqs \<noteq> [] \<longrightarrow> g_ui32TimeStamp (serve b irqs s) = xTickAtStamp (last irqs)))
   \<and> (g_fSpeed (xButtonsHandler b i s) \<noteq> g_fSpeed s \<longrightarrow>
        200 < xTickAtTest i - g_ui32TimeStamp s)"
proof (intro conjI impI)
  show "g_ui32TimeStamp (xButtonsHandler b i s) = xTickAtStamp i"
    by (rule handler_stamp)
next
  assume "within_window (g_ui32TimeStamp s) irqs"
  then show "g_fSpeed (serve b irqs s) = g_fSpeed s"
    by (rule serve_within_window)
next
  assume "irqs \<noteq> []"
  then show "g_ui32TimeStamp (serve b irqs s) = xTickAtStamp (last irqs)"
    by (rule serve_stamp)
next
  assume changed: "g_fSpeed (xButtonsHandler b i s) \<noteq> g_fSpeed s"
  show "200 < xTickAtTest i - g_ui32TimeStamp s"
  proof (rule ccontr)
    assume "\<not> 200 < xTickAtTest i - g_ui32TimeStamp s"
    then have "xTickAtTest i - g_ui32TimeStamp s \<le> 200" by (simp add: not_less)
    then have "g_fSpeed (xButtonsHandler b i s) = g_fSpeed s" by (rule handler_discard)
    with changed show False by simp
  qed
qed

text \<open>
  The witness: after a press accepted at tick 1000, presses at ticks 1150, 1300 and 1450
  are all discarded, the last one 450 ticks after the accepted one; the press at tick
  1000 itself changed the rate factor, 1000 ticks after the initial time stamp.
\<close>

theorem stamp_unconditional_witness:
  "within_window (g_ui32TimeStamp \<lparr>g_fSpeed = Finite (9227469 / 8388608), g_ui32TimeStamp = 1000\<rparr>)
     [irq_at 0x01 1150, irq_at 0x01 1300, irq_at 0x01 1450]
   \<and> [irq_at 0x01 1150, irq_at 0x01 1300, irq_at 0x01 1450] \<noteq> []
   \<and> serve ek_tm4c123gxl [irq_at 0x01 1150, irq_at 0x01 1300, irq_at 0x01 1450]
        \<lparr>g_fSpeed = Finite (9227469 / 8388608), g_ui32TimeStamp = 1000\<rparr>
      = \<lparr>g_fSpeed = Finite (9227469 / 8388608), g_ui32TimeStamp = 1450\<rparr>
   \<and> g_fSpeed (xButtonsHandler ek_tm4c123gxl (irq_at 0x01 1000) initial_globals)
        \<noteq> g_fSpeed initial_globals
   \<and> 200 < xTickAtTest (irq_at 0x01 1000) - g_ui32TimeStamp initial_globals"
  using stamp_unconditional [where b = ek_tm4c123gxl
      and s = "\<lparr>g_fSpeed = Finite (9227469 / 8388608), g_ui32TimeStamp = 1000\<rparr>"
      and irqs = "[irq_at 0x01 1150, irq_at 0x01 1300, irq_at 0x01 1450]"]
    stamp_unconditional [where b = ek_tm4c123gxl and s = initial_globals
      and i = "irq_at 0x01 1000"]
  by (simp add: xButtonsHandler_def ek_tm4c123gxl_def irq_at_def initial_globals_def
      speed_up_from_1)

lemma float_mul_assign_Finite:
  "float_mul_assign (Finite v) (Finite c) = fp_convert binary32 (fp_round binary64 (v * c))"
  by (simp add: float_mul_assign_def)

lemma speed_up_from_speed_up:
  "float_mul_assign (Finite (9227469 / 8388608)) one_plus_BLINK_RATE
     = Finite (1268777 / 1048576)"
  by (simp add: float_mul_assign_def one_plus_BLINK_RATE_value
      fp_round_binade [where e = 0]
      binary64_def binary32_def pow2_def round_half_even_def Let_def floor_numeral_div)

lemma slow_down_from_2:
  "float_mul_assign (Finite 2) one_minus_BLINK_RATE = Finite (7549747 / 4194304)"
  by (simp add: float_mul_assign_def one_minus_BLINK_RATE_value
      fp_round_binade [where e = 0]
      binary64_def binary32_def pow2_def round_half_even_def Let_def floor_numeral_div)

text \<open>
  C3. When the tick count read at the debounce test is more than 200 ticks after
  \<^verbatim>\<open>g_ui32TimeStamp\<close>, the handler multiplies \<^verbatim>\<open>g_fSpeed\<close> by \<^verbatim>\<open>(1 + BLINK_RATE)\<close>,
  that is by 1 + 0.1, if the bit of the first line (\<^verbatim>\<open>RIGHT_BUTTON\<close>) is set in the
  interrupt status, or else by \<^verbatim>\<open>(1 - BLINK_RATE)\<close>, that is by 1 - 0.1, if the bit of
  the second line (\<^verbatim>\<open>LEFT_BUTTON\<close>) is set. The multiplication is the one of C: the
  product is taken in \<^verbatim>\<open>double\<close> and stored as a \<^verbatim>\<open>float\<close>. For a finite rate factor
  \<open>v\<close> the new one is the exact product of \<open>v\<close> and the \<^verbatim>\<open>double\<close> nearest to 1.1
  (1.100000000000000088817841970012523) or to 0.9 (0.90000000000000002220446049250313),
  rounded to \<^verbatim>\<open>double\<close> and then to \<^verbatim>\<open>float\<close>; and for \<open>v\<close> in the normal range of
  a \<^verbatim>\<open>float\<close> it is a number that differs from \<open>v * (1 + 1 / 10)\<close>, or from
  \<open>v * (1 - 1 / 10)\<close>, by at most the fraction \<open>2 ^ - 23\<close> of it.
\<close>

theorem accepted_event_scales:
  "200 < xTickAtTest i - g_ui32TimeStamp s \<Longrightarrow>
   g_fSpeed (xButtonsHandler b i s) =
     (if ui32Status i AND RIGHT_BUTTON b = RIGHT_BUTTON b
      then fp_convert binary32
             (fp_mul binary64 (g_fSpeed s) (fp_add binary64 (Finite 1) BLINK_RATE))
      else if ui32Status i AND LEFT_BUTTON b = LEFT_BUTTON b
      then fp_convert binary32
             (fp_mul binary64 (g_fSpeed s) (fp_sub binary64 (Finite 1) BLINK_RATE))
      else g_fSpeed s)
   \<and> (g_fSpeed s = Finite v \<longrightarrow>
     g_fSpeed (xButtonsHandler b i s) =
     (if ui32Status i AND RIGHT_BUTTON b = RIGHT_BUTTON b
      then fp_convert binary32
             (fp_round binary64 (v * (2476979795053773 / 2251799813685248)))
      else if ui32Status i AND LEFT_BUTTON b = LEFT_BUTTON b
      then fp_convert binary32
             (fp_round binary64 (v * (8106479329266893 / 9007199254740992)))
      else Finite v))
   \<and> (g_fSpeed s = Finite v \<and> pow2 (- 125) \<le> v \<and> v \<le> pow2 125 \<longrightarrow>
     (if ui32Status i AND RIGHT_BUTTON b = RIGHT_BUTTON b
      then close_to (g_fSpeed (xButtonsHandler b i s))
             (v * (1 + 1 / 10)) (v * (1 + 1 / 10) / 2 ^ 23)
      else if ui32Status i AND LEFT_BUTTON b = LEFT_BUTTON b
      then close_to (g_fSpeed (xButtonsHandler b i s))
             (v * (1 - 1 / 10)) (v * (1 - 1 / 10) / 2 ^ 23)
      else g_fSpeed (xButtonsHandler b i s) = Finite v))"
proof (intro conjI impI)
  assume far: "200 < xTickAtTest i - g_ui32TimeStamp s"
  note acc = handler_accept [OF far, of b]
  show "g_fSpeed (xButtonsHandler b i s) =
     (if ui32Status i AND RIGHT_BUTTON b = RIGHT_BUTTON b
      then fp_convert binary32
             (fp_mul binary64 (g_fSpeed s) (fp_add binary64 (Finite 1) BLINK_RATE))
      else if ui32Status i AND LEFT_BUTTON b = LEFT_BUTTON b
      then fp_convert binary32
             (fp_mul binary64 (g_fSpeed s) (fp_sub binary64 (Finite 1) BLINK_RATE))
      else g_fSpeed s)"
    by (simp add: acc float_mul_assign_def one_plus_BLINK_RATE_def one_minus_BLINK_RATE_def)
  show "g_fSpeed (xButtonsHandler b i s) =
     (if ui32Status i AND RIGHT_BUTTON b = RIGHT_BUTTON b
      then fp_convert binary32
             (fp_round binary64 (v * (2476979795053773 / 2251799813685248)))
      else if ui32Status i AND LEFT_BUTTON b = LEFT_BUTTON b
      then fp_convert binary32
             (fp_round binary64 (v * (8106479329266893 / 9007199254740992)))
      else Finite v)"
    if "g_fSpeed s = Finite v"
    by (simp only: acc that one_plus_BLINK_RATE_value one_minus_BLINK_RATE_value
        float_mul_assign_Finite)
  show "(if ui32Status i AND RIGHT_BUTTON b = RIGHT_BUTTON b
      then close_to (g_fSpeed (xButtonsHandler b i s))
             (v * (1 + 1 / 10)) (v * (1 + 1 / 10) / 2 ^ 23)
      else if ui32Status i AND LEFT_BUTTON b = LEFT_BUTTON b
      then close_to (g_fSpeed (xButtonsHandler b i s))
             (v * (1 - 1 / 10)) (v * (1 - 1 / 10) / 2 ^ 23)
      else g_fSpeed (xButtonsHandler b i s) = Finite v)"
    if all: "g_fSpeed s = Finite v \<and> pow2 (- 125) \<le> v \<and> v \<le> pow2 125"
  proof -
    from all have fin: "g_fSpeed s = Finite v" and lo: "pow2 (- 125) \<le> v"
      and hi: "v \<le> pow2 125" by simp_all
    have near: "close_to (press_update p (Finite v)) (v * factor p) (v * factor p / 2 ^ 23)"
      for p
    proof -
      from press_update_normal [OF lo hi, of p]
      obtain v' where v': "press_update p (Finite v) = Finite v'"
        and b1: "v * factor p * (1 - 1 / 2 ^ 23) \<le> v'"
        and b2: "v' \<le> v * factor p * (1 + 1 / 2 ^ 23)"
        by blast
      define P where "P = v * factor p"
      from b1 b2 have "P - P / 2 ^ 23 \<le> v'" and "v' \<le> P + P / 2 ^ 23"
        by (simp_all add: P_def [symmetric] algebra_simps)
      then have "v' - P \<le> P / 2 ^ 23 \<and> - (v' - P) \<le> P / 2 ^ 23" by simp
      then have "\<bar>v' - P\<bar> \<le> P / 2 ^ 23" by (simp only: abs_le_iff)
      then show ?thesis by (simp only: close_to_def v' fp.case P_def)
    qed
    have up: "v * (1 + 1 / 10) = v * factor SpeedUp"
      and down: "v * (1 - 1 / 10) = v * factor SlowDown"
      by simp_all
    from near [of SpeedUp] near [of SlowDown] show ?thesis
      by (simp only: acc fin up down press_update.simps split: if_split) simp
  qed
qed

text \<open>
  From the rate factor 2 a press on the second line gives the \<^verbatim>\<open>float\<close> nearest to
  1.8, and from the \<^verbatim>\<open>float\<close> nearest to 1.1 a press on the first line gives the
  \<^verbatim>\<open>float\<close> nearest to 1.21: the old value is multiplied, not replaced.
\<close>

theorem accepted_event_scales_witness:
  "200 < xTickAtTest (irq_at 0x10 1000)
           - g_ui32TimeStamp \<lparr>g_fSpeed = Finite 2, g_ui32TimeStamp = 0\<rparr>
   \<and> g_fSpeed \<lparr>g_fSpeed = Finite 2, g_ui32TimeStamp = 0\<rparr> = Finite 2
   \<and> pow2 (- 125) \<le> 2 \<and> 2 \<le> pow2 125
   \<and> g_fSpeed (xButtonsHandler ek_tm4c123gxl (irq_at 0x10 1000)
         \<lparr>g_fSpeed = Finite 2, g_ui32TimeStamp = 0\<rparr>) = fp_round binary32 (9 / 5)
   \<and> close_to (fp_round binary32 (9 / 5)) (2 * (1 - 1 / 10)) (2 * (1 - 1 / 10) / 2 ^ 23)
   \<and> fp_round binary32 (9 / 5) \<noteq> fp_round binary32 (9 / 10)
   \<and> 200 < xTickAtTest (irq_at 0x01 1300)
           - g_ui32TimeStamp \<lparr>g_fSpeed = fp_round binary32 (11 / 10), g_ui32TimeStamp = 1000\<rparr>
   \<and> g_fSpeed (xButtonsHandler ek_tm4c123gxl (irq_at 0x01 1300)
         \<lparr>g_fSpeed = fp_round binary32 (11 / 10), g_ui32TimeStamp = 1000\<rparr>)
       = fp_round binary32 (121 / 100)
   \<and> fp_round binary32 (121 / 100) \<noteq> fp_round binary32 (11 / 10)"
proof -
  let ?s = "\<lparr>g_fSpeed = Finite 2, g_ui32TimeStamp = 0\<rparr>"
  let ?t = "\<lparr>g_fSpeed = Finite (9227469 / 8388608), g_ui32TimeStamp = 1000\<rparr>"
  have f18: "fp_round binary32 (9 / 5) = Finite (7549747 / 4194304)"
    by (simp add: fp_round_binade [where e = 0]
        binary32_def pow2_def round_half_even_def Let_def floor_numeral_div)
  have f121: "fp_round binary32 (121 / 100) = Finite (1268777 / 1048576)"
    by (simp add: fp_round_binade [where e = 0]
        binary32_def pow2_def round_half_even_def Let_def floor_numeral_div)
  have far: "200 < xTickAtTest (irq_at 0x10 1000) - g_ui32TimeStamp ?s"
    and far': "200 < xTickAtTest (irq_at 0x01 1300) - g_ui32TimeStamp ?t"
    by (simp_all add: irq_at_def)
  have fin: "g_fSpeed ?s = Finite 2" and fin': "g_fSpeed ?t = Finite (9227469 / 8388608)"
    by simp_all
  have range: "pow2 (- 125) \<le> 2" "2 \<le> pow2 125" by (simp_all add: pow2_def)
  have left: "\<not> ui32Status (irq_at 0x10 1000) AND RIGHT_BUTTON ek_tm4c123gxl
                 = RIGHT_BUTTON ek_tm4c123gxl"
    "ui32Status (irq_at 0x10 1000) AND LEFT_BUTTON ek_tm4c123gxl = LEFT_BUTTON ek_tm4c123gxl"
    and right: "ui32Status (irq_at 0x01 1300) AND RIGHT_BUTTON ek_tm4c123gxl
                 = RIGHT_BUTTON ek_tm4c123gxl"
    by (simp_all add: irq_at_def ek_tm4c123gxl_def)
  have v1: "g_fSpeed (xButtonsHandler ek_tm4c123gxl (irq_at 0x10 1000) ?s)
      = Finite (7549747 / 4194304)"
    using accepted_event_scales [OF far, of ek_tm4c123gxl, THEN conjunct1] left
    by (simp add: slow_down_from_2 [unfolded float_mul_assign_def one_minus_BLINK_RATE_def])
  have c1: "close_to (g_fSpeed (xButtonsHandler ek_tm4c123gxl (irq_at 0x10 1000) ?s))
      (2 * (1 - 1 / 10)) (2 * (1 - 1 / 10) / 2 ^ 23)"
    using accepted_event_scales [OF far, of ek_tm4c123gxl 2, THEN conjunct2, THEN conjunct2]
      fin range left
    by (simp only: if_False if_True)
  have v2: "g_fSpeed (xButtonsHandler ek_tm4c123gxl (irq_at 0x01 1300) ?t)
      = Finite (1268777 / 1048576)"
    using accepted_event_scales [OF far', of ek_tm4c123gxl, THEN conjunct1] right
    by (simp add: speed_up_from_speed_up [unfolded float_mul_assign_def one_plus_BLINK_RATE_def])
  from far far' fin range v1 v2 c1 show ?thesis
    by (simp add: f18 f121 float_11_10 float_9_10)
qed

text \<open>
  C4, as the code behaves. From the initial state (rate factor 1, time stamp 0) the
  interrupt on the first line at tick 0 is discarded by the debounce test, since 0 ticks
  have passed since the time stamp, and the interrupt on the second line at tick 300
  multiplies by 1 - 0.1: the rate factor goes through the values 1, then 1, then the
  \<^verbatim>\<open>float\<close> nearest to 0.9.
\<close>

theorem scenario_A0_B300:
  "speeds ek_tm4c123gxl [irq_at 0x01 0, irq_at 0x10 300] initial_globals
     = [Finite 1, Finite 1, fp_round binary32 (9 / 10)]"
  by (simp add: xButtonsHandler_def ek_tm4c123gxl_def irq_at_def initial_globals_def
      slow_down_from_1 float_9_10)

text \<open>
  C4, as the claim states it, fails: after the interrupt on the first line at tick 0 the
  rate factor is not 1.1, and after the one on the second line at tick 300 it is not
  0.99.
\<close>

theorem scenario_A0_B300_counterexample:
  "speeds ek_tm4c123gxl [irq_at 0x01 0, irq_at 0x10 300] initial_globals
     \<noteq> [Finite 1, fp_round binary32 (11 / 10), fp_round binary32 (99 / 100)]
   \<and> g_fSpeed (serve ek_tm4c123gxl [irq_at 0x01 0] initial_globals) = Finite 1
   \<and> g_fSpeed (serve ek_tm4c123gxl [irq_at 0x01 0, irq_at 0x10 300] initial_globals)
       = Finite (7549747 / 8388608)"
  by (simp add: xButtonsHandler_def ek_tm4c123gxl_def irq_at_def initial_globals_def
      slow_down_from_1 float_11_10 float_99_100)

text \<open>
  C9. The rate factor starts at 1 and the time stamp at 0, so a first press whose
  debounce test reads a tick count of 200 or less is discarded and the rate factor stays
  1, although no press came before it; and so is every press of a sequence of presses
  that all come at tick counts of 200 or less.
\<close>

theorem early_press_discarded:
  "g_fSpeed initial_globals = Finite 1 \<and> g_ui32TimeStamp initial_globals = 0
   \<and> (xTickAtTest i \<le> 200 \<longrightarrow>
        g_fSpeed (xButtonsHandler b i initial_globals) = Finite 1)
   \<and> (early 0 irqs \<longrightarrow> g_fSpeed (serve b irqs initial_globals) = Finite 1)"
proof (intro conjI impI)
  show "g_fSpeed initial_globals = Finite 1" and "g_ui32TimeStamp initial_globals = 0"
    by (simp_all add: initial_globals_def)
next
  assume "xTickAtTest i \<le> 200"
  then have "xTickAtTest i - g_ui32TimeStamp initial_globals \<le> 200"
    by (simp add: initial_globals_def)
  then have "g_fSpeed (xButtonsHandler b i initial_globals) = g_fSpeed initial_globals"
    by (rule handler_discard)
  then show "g_fSpeed (xButtonsHandler b i initial_globals) = Finite 1"
    by (simp add: initial_globals_def)
next
  assume "early 0 irqs"
  then have "within_window 0 irqs" by (rule early_within_window)
  then have "within_window (g_ui32TimeStamp initial_globals) irqs"
    by (simp add: initial_globals_def)
  then have "g_fSpeed (serve b irqs initial_globals) = g_fSpeed initial_globals"
    by (rule serve_within_window)
  then show "g_fSpeed (serve b irqs initial_globals) = Finite 1"
    by (simp add: initial_globals_def)
qed

theorem early_press_discarded_witness:
  "xTickAtTest (irq_at 0x01 200) \<le> 200
   \<and> g_fSpeed (xButtonsHandler ek_tm4c123gxl (irq_at 0x01 200) initial_globals) = Finite 1
   \<and> early 0 [irq_at 0x01 0, irq_at 0x10 100, irq_at 0x01 200]
   \<and> g_fSpeed (serve ek_tm4c123gxl [irq_at 0x01 0, irq_at 0x10 100, irq_at 0x01 200]
        initial_globals) = Finite 1"
  using early_press_discarded [where i = "irq_at 0x01 200" and b = ek_tm4c123gxl
      and irqs = "[irq_at 0x01 0, irq_at 0x10 100, irq_at 0x01 200]"]
  by (simp add: irq_at_def)



section \<open>The tasks and the queue\<close>

lemma prvQueueSendTask_calls:
  "prvQueueSendTask b w env =
     map_option (producer_calls w)
       (those (map (\<lambda>e. scaled_ticks (mainQUEUE_SEND_FREQUENCY_MS b) (fst e)) env))"
proof (induction env arbitrary: w)
  case Nil
  show ?case by simp
next
  case (Cons e env)
  obtain speed sent where e: "e = (speed, sent)" by (cases e)
  show ?case
  proof (cases "scaled_ticks (mainQUEUE_SEND_FREQUENCY_MS b) speed")
    case None
    then show ?thesis by (simp add: e prvQueueSendTask_round_def)
  next
    case (Some d)
    then show ?thesis
      by (simp add: e prvQueueSendTask_round_def Cons.IH option.map_comp comp_def
          split: option.split)
  qed
qed

lemma length_producer_calls: "length (filter is_send (producer_calls w ds)) = length ds"
  by (induction ds arbitrary: w) simp_all

lemma producer_calls_absolute: "filter is_relative_delay (producer_calls w ds) = []"
  by (induction ds arbitrary: w) simp_all

lemma queue_step_capacity: "capacity (queue_step op q) = capacity q"
  by (cases op) (simp_all add: send_def receive_def split: list.split)

lemma queue_step_bounded:
  "length (items q) \<le> capacity q \<Longrightarrow>
   length (items (queue_step op q)) \<le> capacity (queue_step op q)"
  by (cases op) (auto simp: send_def receive_def split: list.split)

lemma queue_run_capacity: "capacity (queue_run ops q) = capacity q"
  by (induction ops arbitrary: q) (simp_all add: queue_step_capacity)

lemma queue_run_bounded:
  "length (items q) \<le> capacity q \<Longrightarrow>
   length (items (queue_run ops q)) \<le> capacity (queue_run ops q)"
proof (induction ops arbitrary: q)
  case Nil
  then show ?case by simp
next
  case (Cons op ops)
  from Cons.prems have "length (items (queue_step op q)) \<le> capacity (queue_step op q)"
    by (rule queue_step_bounded)
  then show ?case by (simp add: Cons.IH)
qed


text \<open>
  On the board of the header comment the two periods are 1000 and 500 ticks; scaled by
  the rate factors 1, 1.1 and 0.9 (as \<^verbatim>\<open>float\<close>s) they give 1000, 1100, 500 and 450
  ticks.
\<close>

lemma base_period_ek: "mainQUEUE_SEND_FREQUENCY_MS ek_tm4c123gxl = 1000"
  by (simp add: mainQUEUE_SEND_FREQUENCY_MS_def pdMS_TO_TICKS_def ek_tm4c123gxl_def)

lemma short_block_ek: "xShortBlock ek_tm4c123gxl = 500"
  by (simp add: xShortBlock_def pdMS_TO_TICKS_def ek_tm4c123gxl_def)

lemma float_1000: "fp_of_uint32 binary32 1000 = Finite 1000"
  by (simp add: fp_of_uint32_def fp_round_binade [where e = 9]
      binary32_def pow2_def round_half_even_def Let_def floor_numeral_div)

lemma float_500: "fp_of_uint32 binary32 500 = Finite 500"
  by (simp add: fp_of_uint32_def fp_round_binade [where e = 8]
      binary32_def pow2_def round_half_even_def Let_def floor_numeral_div)

lemma scaled_1000_by_1: "scaled_ticks 1000 (Finite 1) = Some 1000"
  unfolding scaled_ticks_def float_1000
  by (simp add: fp_round_binade [where e = 9]
      binary32_def pow2_def round_half_even_def Let_def floor_numeral_div)

lemma scaled_1000_by_speed_up:
  "scaled_ticks 1000 (Finite (9227469 / 8388608)) = Some 1100"
  unfolding scaled_ticks_def float_1000
  by (simp add: fp_round_binade [where e = 10]
      binary32_def pow2_def round_half_even_def Let_def floor_numeral_div)

lemma scaled_500_by_slow_down:
  "scaled_ticks 500 (Finite (7549747 / 8388608)) = Some 450"
  unfolding scaled_ticks_def float_500
  by (simp add: fp_round_binade [where e = 8]
      binary32_def pow2_def round_half_even_def Let_def floor_numeral_div)

text \<open>
  C6. Every round of the sending task calls \<^verbatim>\<open>vTaskDelayUntil\<close> with its previous wake
  time \<open>w\<close> and the increment \<open>d\<close> that is the product of the base period (1000 ms in
  ticks) and the rate factor, computed in \<^verbatim>\<open>float\<close> and converted to a tick count;
  the task wakes at the absolute time \<open>w + d\<close>, whatever the time of the call, and
  \<open>w + d\<close> is the previous wake time of the next round. It then calls \<^verbatim>\<open>xQueueSend\<close>
  once with the value 100 and the block time 0, which does not wait. The outcome of the
  send does not enter what the task does next: a round after a full queue is the same
  round, there is one send per round and no call of \<^verbatim>\<open>vTaskDelay\<close>, and the calls of
  any number of rounds are those of \<open>producer_calls\<close>.
\<close>

theorem producer_rounds:
  "prvQueueSendTask b w env =
     map_option (producer_calls w)
       (those (map (\<lambda>e. scaled_ticks (pdMS_TO_TICKS b 1000) (fst e)) env))
   \<and> wake_time now (VTaskDelayUntil w d) = Some (w + d)
   \<and> timeout_of b 0 = NoWait
   \<and> length (filter is_send (producer_calls w ds)) = length ds
   \<and> filter is_relative_delay (producer_calls w ds) = []
   \<and> prvQueueSendTask_round b speed errQUEUE_FULL w = prvQueueSendTask_round b speed pdPASS w
   \<and> prvQueueSendTask_round b speed sent w =
       map_option (\<lambda>d. ([VTaskDelayUntil w d, XQueueSend 100 0], w + d))
         (fp_to_uint32 (fp_mul binary32 (fp_of_uint32 binary32 (pdMS_TO_TICKS b 1000)) speed))"
proof (intro conjI)
  show "prvQueueSendTask b w env =
     map_option (producer_calls w)
       (those (map (\<lambda>e. scaled_ticks (pdMS_TO_TICKS b 1000) (fst e)) env))"
    using prvQueueSendTask_calls [of b w env]
    by (simp add: mainQUEUE_SEND_FREQUENCY_MS_def)
  show "length (filter is_send (producer_calls w ds)) = length ds"
    by (rule length_producer_calls)
  show "filter is_relative_delay (producer_calls w ds) = []"
    by (rule producer_calls_absolute)
  show "prvQueueSendTask_round b speed sent w =
       map_option (\<lambda>d. ([VTaskDelayUntil w d, XQueueSend 100 0], w + d))
         (fp_to_uint32 (fp_mul binary32 (fp_of_uint32 binary32 (pdMS_TO_TICKS b 1000)) speed))"
    by (simp add: prvQueueSendTask_round_def scaled_ticks_def mainQUEUE_SEND_FREQUENCY_MS_def
        split: option.split)
qed (simp_all add: timeout_of_def prvQueueSendTask_round_def)

text \<open>
  Three rounds start at tick 7; the rate factor is 1.1 in the second round, whose send
  finds the queue full.
\<close>

theorem producer_rounds_witness:
  "prvQueueSendTask ek_tm4c123gxl 7
     [(Finite 1, pdPASS), (fp_round binary32 (11 / 10), errQUEUE_FULL), (Finite 1, pdPASS)]
   = Some [VTaskDelayUntil 7 1000, XQueueSend 100 0,
           VTaskDelayUntil 1007 1100, XQueueSend 100 0,
           VTaskDelayUntil 2107 1000, XQueueSend 100 0]"
  using producer_rounds [where b = ek_tm4c123gxl and w = 7 and env =
     "[(Finite 1, pdPASS), (fp_round binary32 (11 / 10), errQUEUE_FULL), (Finite 1, pdPASS)]",
     THEN conjunct1]
  by (simp del: prvQueueSendTask.simps
      add: base_period_ek [unfolded mainQUEUE_SEND_FREQUENCY_MS_def]
      float_11_10 scaled_1000_by_1 scaled_1000_by_speed_up)

text \<open>
  C7. Every round of the receiving task calls \<^verbatim>\<open>xQueueReceive\<close> with the block time
  \<^verbatim>\<open>portMAX_DELAY\<close>, which waits for ever. When the value received is 100 it writes
  the blue LED on and the red one off (the active state), calls \<^verbatim>\<open>vTaskDelay\<close> with 500
  ms in ticks multiplied by the rate factor (computed in \<^verbatim>\<open>float\<close> and converted to
  a tick count), and writes the red LED on and the blue one off (the inactive state).
  After any other value it makes no further call and goes on to the next round.
\<close>

theorem consumer_round:
  "(scaled_ticks (pdMS_TO_TICKS b 500) speed = Some d \<longrightarrow>
      prvQueueReceiveTask_round b speed (Some 100) old =
        Some ([XQueueReceive (portMAX_DELAY b),
               GPIOPinWrite (BLUE_LED_PIN b OR RED_LED_PIN b) (BLUE_LED_PIN b),
               VTaskDelay d,
               GPIOPinWrite (BLUE_LED_PIN b OR RED_LED_PIN b) (RED_LED_PIN b)], 0))
   \<and> (v \<noteq> 100 \<longrightarrow>
      prvQueueReceiveTask_round b speed (Some v) old =
        Some ([XQueueReceive (portMAX_DELAY b)], v))
   \<and> (portMAX_DELAY b \<noteq> 0 \<longrightarrow> timeout_of b (portMAX_DELAY b) = Forever)
   \<and> scaled_ticks (pdMS_TO_TICKS b 500) speed =
       fp_to_uint32 (fp_mul binary32 (fp_of_uint32 binary32 (pdMS_TO_TICKS b 500)) speed)"
  by (simp add: prvQueueReceiveTask_round_def xShortBlock_def timeout_of_def scaled_ticks_def)

theorem consumer_round_witness:
  "scaled_ticks (pdMS_TO_TICKS ek_tm4c123gxl 500) (fp_round binary32 (9 / 10)) = Some 450
   \<and> prvQueueReceiveTask_round ek_tm4c123gxl (fp_round binary32 (9 / 10)) (Some 100) 7 =
        Some ([XQueueReceive 0xFFFFFFFF, GPIOPinWrite 6 4, VTaskDelay 450, GPIOPinWrite 6 2], 0)
   \<and> (5 :: uint32_t) \<noteq> 100
   \<and> prvQueueReceiveTask_round ek_tm4c123gxl (fp_round binary32 (9 / 10)) (Some 5) 7 =
        Some ([XQueueReceive 0xFFFFFFFF], 5)
   \<and> portMAX_DELAY ek_tm4c123gxl \<noteq> 0
   \<and> timeout_of ek_tm4c123gxl (portMAX_DELAY ek_tm4c123gxl) = Forever"
proof -
  note facts = consumer_round [where b = ek_tm4c123gxl and speed = "fp_round binary32 (9 / 10)"
      and d = 450 and v = 5 and old = 7]
  have d: "scaled_ticks (pdMS_TO_TICKS ek_tm4c123gxl 500) (fp_round binary32 (9 / 10)) = Some 450"
    by (simp only: short_block_ek [unfolded xShortBlock_def] float_9_10 scaled_500_by_slow_down)
  have v: "(5 :: uint32_t) \<noteq> 100" by simp
  have m: "portMAX_DELAY ek_tm4c123gxl \<noteq> 0" by (simp add: ek_tm4c123gxl_def)
  have pins: "portMAX_DELAY ek_tm4c123gxl = 0xFFFFFFFF"
    "BLUE_LED_PIN ek_tm4c123gxl OR RED_LED_PIN ek_tm4c123gxl = 6"
    "BLUE_LED_PIN ek_tm4c123gxl = 4" "RED_LED_PIN ek_tm4c123gxl = 2"
    by (simp_all add: ek_tm4c123gxl_def)
  from facts d v m show ?thesis by (simp add: pins)
qed

text \<open>
  C8. Whatever sends and receives are made on a queue created with a capacity, it never
  holds more items than its capacity; for the queue of the application that is one
  item. A send with block time 0 on a full queue returns \<^verbatim>\<open>WouldBlock\<close> without
  having waited and leaves the queue as it was. A receive that waits for ever has not
  returned as long as the queue is empty, and when it returns, it returns the first item
  of a queue that was not empty.
\<close>

theorem queue_bounded:
  "length (items (queue_run ops (xQueueCreate n))) \<le> n
   \<and> capacity (queue_run ops xQueue) = 1
   \<and> length (items (queue_run ops xQueue)) \<le> 1
   \<and> (capacity q \<le> length (items q) \<longrightarrow>
        send item NoWait waited q = (Some (Err WouldBlock), q)
        \<and> send item (timeout_of b 0) 0 q = (Some (Err WouldBlock), q))
   \<and> (items q = [] \<longrightarrow> receive Forever waited q = (None, q))
   \<and> (fst (receive Forever waited q) = Some r \<longrightarrow>
        items q \<noteq> [] \<and> r = Ok (hd (items q)))"
proof (intro conjI impI)
  show "length (items (queue_run ops (xQueueCreate n))) \<le> n"
    using queue_run_bounded [of "xQueueCreate n" ops]
    by (simp add: queue_run_capacity xQueueCreate_def)
next
  show cap: "capacity (queue_run ops xQueue) = 1"
    by (simp add: queue_run_capacity xQueue_def xQueueCreate_def)
  have "length (items (queue_run ops xQueue)) \<le> capacity (queue_run ops xQueue)"
    by (rule queue_run_bounded) (simp add: xQueue_def xQueueCreate_def)
  with cap show "length (items (queue_run ops xQueue)) \<le> 1" by simp
next
  assume "capacity q \<le> length (items q)"
  then show "send item NoWait waited q = (Some (Err WouldBlock), q)"
    and "send item (timeout_of b 0) 0 q = (Some (Err WouldBlock), q)"
    by (simp_all add: send_def timeout_of_def)
next
  assume "items q = []"
  then show "receive Forever waited q = (None, q)" by (simp add: receive_def)
next
  assume "fst (receive Forever waited q) = Some r"
  then show "items q \<noteq> []" and "r = Ok (hd (items q))"
    by (auto simp: receive_def split: list.splits)
qed

theorem queue_bounded_witness:
  "capacity (queue_run [Send 100 NoWait 0] xQueue)
     \<le> length (items (queue_run [Send 100 NoWait 0] xQueue))
   \<and> send 100 NoWait 0 (queue_run [Send 100 NoWait 0] xQueue)
       = (Some (Err WouldBlock), \<lparr>capacity = 1, items = [100]\<rparr>)
   \<and> items xQueue = []
   \<and> receive Forever 1000 xQueue = (None, xQueue)
   \<and> fst (receive Forever 0 (queue_run [Send 100 NoWait 0] xQueue)) = Some (Ok 100)
   \<and> items (queue_run [Send 100 NoWait 0, Send 100 NoWait 0, Send 100 NoWait 0] xQueue) = [100]"
  using queue_bounded [where q = "queue_run [Send 100 NoWait 0] xQueue" and item = 100
      and waited = 0 and r = "Ok 100"]
    queue_bounded [where q = xQueue and waited = 1000]
  by (simp add: xQueue_def xQueueCreate_def send_def receive_def)

section \<open>The rounding error of a sequence of presses\<close>

lemma factor_pos: "0 < factor p"
  by (cases p) simp_all

lemma ideal_rate_pos: "0 < ideal_rate ps"
  by (induction ps) (simp_all add: factor_pos mult_pos_pos)

lemma ideal_rate_counts:
  "ideal_rate ps = (11 / 10) ^ count_list ps SpeedUp * (9 / 10) ^ count_list ps SlowDown"
proof (induction ps)
  case Nil
  show ?case by simp
next
  case (Cons p ps)
  then show ?case by (cases p) simp_all
qed

lemma length_counts: "length ps = count_list ps SpeedUp + count_list ps SlowDown"
proof (induction ps)
  case Nil
  show ?case by simp
next
  case (Cons p ps)
  then show ?case by (cases p) simp_all
qed

lemma serve_all_accepted:
  "all_accepted (g_ui32TimeStamp s) is \<Longrightarrow>
   g_fSpeed (serve b is s) = rate_after (presses b is) (g_fSpeed s)"
proof (induction "is" arbitrary: s)
  case Nil
  show ?case by simp
next
  case (Cons i "is")
  from Cons.prems have far: "200 < xTickAtTest i - g_ui32TimeStamp s"
    and rest: "all_accepted (g_ui32TimeStamp (xButtonsHandler b i s)) is"
    by (simp_all add: handler_stamp)
  from Cons.IH [OF rest] handler_accept [OF far, of b]
  show ?case by simp
qed

lemma rate_after_bounds:
  assumes "0 < v0"
    and "pow2 (- 125) \<le> v0 * (8999 / 10000) ^ count_list ps SlowDown"
    and "v0 * (11001 / 10000) ^ count_list ps SpeedUp \<le> pow2 125"
  shows "\<exists>v. rate_after ps (Finite v0) = Finite v
           \<and> v0 * ideal_rate ps * (1 - 1 / 2 ^ 23) ^ length ps \<le> v
           \<and> v \<le> v0 * ideal_rate ps * (1 + 1 / 2 ^ 23) ^ length ps"
  using assms
proof (induction ps arbitrary: v0)
  case Nil
  then show ?case by simp
next
  case (Cons p ps)
  let ?k = "length ps"
  let ?m = "count_list ps SlowDown"
  let ?n = "count_list ps SpeedUp"
  define q :: rat where "q = 8999 / 10000"
  define g :: rat where "g = 11001 / 10000"
  define lf where "lf = (if p = SlowDown then q else 1)"
  define hf where "hf = (if p = SpeedUp then g else 1)"
  note pos = \<open>0 < v0\<close>
  have q: "0 \<le> q" "q \<le> 1" and g: "1 \<le> g" by (simp_all add: q_def g_def)
  have lf: "0 \<le> lf" "lf \<le> 1" and hf: "1 \<le> hf"
    using q g by (simp_all add: lf_def hf_def)
  have cnt_lo: "q ^ count_list (p # ps) SlowDown = lf * q ^ ?m"
    and cnt_hi: "g ^ count_list (p # ps) SpeedUp = hf * g ^ ?n"
    by (cases p; simp add: lf_def hf_def)+
  have f_lo: "lf \<le> factor p * (1 - 1 / 2 ^ 23)" and f_hi: "factor p * (1 + 1 / 2 ^ 23) \<le> hf"
    by (cases p; simp add: lf_def hf_def q_def g_def)+
  have prem_lo: "pow2 (- 125) \<le> v0 * (lf * q ^ ?m)"
    using Cons.prems(2) by (simp only: q_def [symmetric] cnt_lo)
  have prem_hi: "v0 * (hf * g ^ ?n) \<le> pow2 125"
    using Cons.prems(3) by (simp only: g_def [symmetric] cnt_hi)
  have "lf * q ^ ?m \<le> 1"
    using lf q by (intro mult_le_one power_le_one) simp_all
  then have "v0 * (lf * q ^ ?m) \<le> v0 * 1"
    using pos by (intro mult_left_mono) simp_all
  with prem_lo have lo: "pow2 (- 125) \<le> v0" by simp
  have "1 \<le> g ^ ?n" using g by (rule one_le_power)
  with hf have "1 * 1 \<le> hf * g ^ ?n" by (intro mult_mono) simp_all
  then have "v0 * 1 \<le> v0 * (hf * g ^ ?n)"
    using pos by (intro mult_left_mono) simp_all
  with prem_hi have hi: "v0 \<le> pow2 125" by simp
  from press_update_normal [OF lo hi, of p]
  obtain v1 where v1: "press_update p (Finite v0) = Finite v1"
    and v1_lo: "v0 * factor p * (1 - 1 / 2 ^ 23) \<le> v1"
    and v1_hi: "v1 \<le> v0 * factor p * (1 + 1 / 2 ^ 23)"
    by blast
  have "v0 * lf \<le> v0 * (factor p * (1 - 1 / 2 ^ 23))"
    using f_lo pos by (simp only: mult_le_cancel_left_pos)
  with v1_lo have a1: "v0 * lf \<le> v1" by (simp only: mult.assoc)
  have "v0 * (factor p * (1 + 1 / 2 ^ 23)) \<le> v0 * hf"
    using f_hi pos by (simp only: mult_le_cancel_left_pos)
  with v1_hi have a2: "v1 \<le> v0 * hf" by (simp only: mult.assoc)
  have "v0 * (factor p * (1 - 1 / 2 ^ 23)) \<le> v1" using v1_lo by (simp only: mult.assoc)
  moreover have "0 < v0 * (factor p * (1 - 1 / 2 ^ 23))"
    using pos factor_pos [of p] by simp
  ultimately have pos1: "0 < v1" by (rule less_le_trans [rotated])
  have len: "length (p # ps) = Suc ?k" by simp
  have "pow2 (- 125) \<le> v0 * (lf * q ^ ?m)" by (rule prem_lo)
  also have "\<dots> = v0 * lf * q ^ ?m" by (simp only: mult.assoc)
  also have "\<dots> \<le> v1 * q ^ ?m"
    using a1 by (rule mult_right_mono) (simp add: q)
  finally have r1: "pow2 (- 125) \<le> v1 * (8999 / 10000) ^ ?m" by (simp only: q_def)
  have "v1 * g ^ ?n \<le> v0 * hf * g ^ ?n"
    using a2 by (rule mult_right_mono) (use g in simp)
  also have "\<dots> = v0 * (hf * g ^ ?n)" by (simp only: mult.assoc)
  also have "\<dots> \<le> pow2 125" by (rule prem_hi)
  finally have r2: "v1 * (11001 / 10000) ^ ?n \<le> pow2 125" by (simp only: g_def)
  from Cons.IH [OF pos1 r1 r2]
  obtain v where v: "rate_after ps (Finite v1) = Finite v"
    and v_lo: "v1 * ideal_rate ps * (1 - 1 / 2 ^ 23) ^ ?k \<le> v"
    and v_hi: "v \<le> v1 * ideal_rate ps * (1 + 1 / 2 ^ 23) ^ ?k"
    by blast
  define A where "A = ideal_rate ps * (1 - 1 / 2 ^ 23) ^ ?k"
  define B where "B = ideal_rate ps * (1 + 1 / 2 ^ 23) ^ ?k"
  have A: "0 \<le> A" and B: "0 \<le> B"
    using ideal_rate_pos [of ps] by (simp_all add: A_def B_def)
  have "v0 * factor p * (1 - 1 / 2 ^ 23) * A \<le> v1 * A"
    using v1_lo A by (rule mult_right_mono)
  also have "v1 * A \<le> v" using v_lo by (simp only: A_def mult.assoc)
  finally have lower: "v0 * factor p * (1 - 1 / 2 ^ 23) * A \<le> v" .
  have "v \<le> v1 * B" using v_hi by (simp only: B_def mult.assoc)
  also have "v1 * B \<le> v0 * factor p * (1 + 1 / 2 ^ 23) * B"
    using v1_hi B by (rule mult_right_mono)
  finally have upper: "v \<le> v0 * factor p * (1 + 1 / 2 ^ 23) * B" .
  have eqA: "v0 * ideal_rate (p # ps) * (1 - 1 / 2 ^ 23) ^ length (p # ps)
      = v0 * factor p * (1 - 1 / 2 ^ 23) * A"
    by (simp only: A_def len power_Suc ideal_rate.simps mult_ac)
  have eqB: "v0 * ideal_rate (p # ps) * (1 + 1 / 2 ^ 23) ^ length (p # ps)
      = v0 * factor p * (1 + 1 / 2 ^ 23) * B"
    by (simp only: B_def len power_Suc ideal_rate.simps mult_ac)
  show ?case
  proof (intro exI conjI)
    show "rate_after (p # ps) (Finite v0) = Finite v" by (simp add: v1 v)
    show "v0 * ideal_rate (p # ps) * (1 - 1 / 2 ^ 23) ^ length (p # ps) \<le> v"
      using lower by (simp only: eqA)
    show "v \<le> v0 * ideal_rate (p # ps) * (1 + 1 / 2 ^ 23) ^ length (p # ps)"
      using upper by (simp only: eqB)
  qed
qed

lemma power_one_plus_le:
  fixes d :: rat
  assumes "0 \<le> d" and "2 * of_nat k * d \<le> 1"
  shows "(1 + d) ^ k \<le> 1 + 2 * of_nat k * d"
  using assms(2)
proof (induction k)
  case 0
  show ?case by simp
next
  case (Suc k)
  from Suc.prems assms(1) have small: "2 * of_nat k * d \<le> 1"
    by (simp add: algebra_simps)
  then have IH: "(1 + d) ^ k \<le> 1 + 2 * of_nat k * d" by (rule Suc.IH)
  have "(1 + d) ^ Suc k = (1 + d) * (1 + d) ^ k" by simp
  also have "\<dots> \<le> (1 + d) * (1 + 2 * of_nat k * d)"
    using IH assms(1) by (intro mult_left_mono) simp_all
  also have "\<dots> = 1 + 2 * of_nat k * d + d + (2 * of_nat k * d) * d"
    by (simp add: algebra_simps)
  also have "\<dots> \<le> 1 + 2 * of_nat k * d + d + 1 * d"
    using small assms(1) by (intro add_left_mono mult_right_mono)
  also have "\<dots> = 1 + 2 * of_nat (Suc k) * d"
    by (simp add: algebra_simps)
  finally show ?case .
qed

lemma power_one_minus_ge:
  fixes d :: rat
  assumes "0 \<le> d" and "d \<le> 1"
  shows "1 - of_nat k * d \<le> (1 - d) ^ k"
proof (induction k)
  case 0
  show ?case by simp
next
  case (Suc k)
  have "1 - of_nat (Suc k) * d \<le> 1 - of_nat (Suc k) * d + (of_nat k * d) * d"
    using assms(1) by simp
  also have "\<dots> = (1 - d) * (1 - of_nat k * d)"
    by (simp add: algebra_simps)
  also have "\<dots> \<le> (1 - d) * (1 - d) ^ k"
    using Suc.IH assms(2) by (intro mult_left_mono) simp_all
  also have "\<dots> = (1 - d) ^ Suc k" by simp
  finally show ?case .
qed

lemma normal_range_counts:
  assumes "m \<le> 800" and "n \<le> 900"
  shows "pow2 (- 125) \<le> (8999 / 10000) ^ m" and "(11001 / 10000) ^ n \<le> pow2 125"
proof -
  have "pow2 (- 125) = (1 / 32) ^ 25" by (simp add: pow2_def power_one_over)
  also have "\<dots> \<le> ((8999 / 10000) ^ 32) ^ 25"
    by (rule power_mono) (simp_all add: power_divide)
  also have "\<dots> = (8999 / 10000 :: rat) ^ 800" by (simp only: power_mult [symmetric]) simp
  also have "\<dots> \<le> (8999 / 10000) ^ m" using assms(1) by (rule power_decreasing) simp_all
  finally show "pow2 (- 125) \<le> (8999 / 10000) ^ m" .
  have "(11001 / 10000 :: rat) ^ n \<le> (11001 / 10000) ^ 900"
    using assms(2) by (rule power_increasing) simp
  also have "\<dots> = ((11001 / 10000) ^ 36) ^ 25" by (simp only: power_mult [symmetric]) simp
  also have "\<dots> \<le> 32 ^ 25" by (rule power_mono) (simp_all add: power_divide)
  also have "\<dots> = pow2 125" by (simp add: pow2_def)
  finally show "(11001 / 10000) ^ n \<le> pow2 125" .
qed

lemma rate_after_close:
  assumes "count_list ps SpeedUp \<le> 900" and "count_list ps SlowDown \<le> 800"
  shows "close_to (rate_after ps (Finite 1)) (ideal_rate ps)
           (ideal_rate ps * of_nat (length ps) / 2 ^ 22)"
proof -
  define k where "k = length ps"
  define P where "P = ideal_rate ps"
  define d :: rat where "d = 1 / 2 ^ 23"
  have Ppos: "0 < P" by (simp add: P_def ideal_rate_pos)
  have d: "0 \<le> d" "d \<le> 1" by (simp_all add: d_def)
  from assms have k: "k \<le> 1700" by (simp add: k_def length_counts [of ps])
  have "2 * of_nat k * d \<le> 2 * of_nat 1700 * d"
    using k d by (intro mult_right_mono mult_left_mono) simp_all
  also have "\<dots> \<le> 1" by (simp add: d_def)
  finally have small: "2 * of_nat k * d \<le> 1" .
  from normal_range_counts [OF assms(2,1)]
  have "pow2 (- 125) \<le> 1 * (8999 / 10000) ^ count_list ps SlowDown"
    and "1 * (11001 / 10000) ^ count_list ps SpeedUp \<le> pow2 125"
    by simp_all
  from rate_after_bounds [OF _ this]
  obtain v where v: "rate_after ps (Finite 1) = Finite v"
    and lo: "P * (1 - d) ^ k \<le> v" and hi: "v \<le> P * (1 + d) ^ k"
    by (auto simp: P_def k_def d_def)
  have "v \<le> P * (1 + d) ^ k" by (rule hi)
  also have "\<dots> \<le> P * (1 + 2 * of_nat k * d)"
    using power_one_plus_le [OF d(1) small] Ppos by (simp only: mult_le_cancel_left_pos)
  finally have up: "v - P \<le> P * (2 * of_nat k * d)" by (simp add: algebra_simps)
  have "P * (1 - of_nat k * d) \<le> P * (1 - d) ^ k"
    using power_one_minus_ge [OF d, of k] Ppos by (simp only: mult_le_cancel_left_pos)
  also have "\<dots> \<le> v" by (rule lo)
  finally have "P - v \<le> P * (of_nat k * d)" by (simp add: algebra_simps)
  also have "\<dots> \<le> P * (2 * of_nat k * d)"
    using Ppos d(1) by (simp add: mult_left_mono)
  finally have down: "P - v \<le> P * (2 * of_nat k * d)" .
  have T: "P * (2 * of_nat k * d) = P * of_nat k / 2 ^ 22" by (simp add: d_def)
  from up down have "v - P \<le> P * (2 * of_nat k * d) \<and> - (v - P) \<le> P * (2 * of_nat k * d)"
    by simp
  then have "\<bar>v - P\<bar> \<le> P * (2 * of_nat k * d)" by (simp only: abs_le_iff)
  then have "\<bar>v - P\<bar> \<le> P * of_nat k / 2 ^ 22" by (simp only: T)
  then show ?thesis by (simp only: close_to_def v P_def k_def fp.case)
qed

text \<open>
  Each "speed up" event multiplies a rate factor of at least 1 by at least 1.0999, until
  it becomes an infinity.
\<close>

lemma press_update_PInf: "press_update SpeedUp PInf = PInf"
  by (simp add: float_mul_assign_def one_plus_BLINK_RATE_value)

lemma rate_after_PInf: "rate_after (replicate n SpeedUp) PInf = PInf"
  by (induction n) (simp_all add: press_update_PInf del: press_update.simps)

lemma count_list_replicate_eq: "count_list (replicate n x) y = (if x = y then n else 0)"
  by (induction n) auto

lemma speed_up_grows:
  assumes v: "1 \<le> v" "v < pow2 128"
  shows "press_update SpeedUp (Finite v) = PInf \<or>
         (\<exists>v'. press_update SpeedUp (Finite v) = Finite v'
               \<and> v * (10999 / 10000) \<le> v' \<and> v' < pow2 128)"
proof -
  define c :: rat where "c = 2476979795053773 / 2251799813685248"
  define x where "x = v * c"
  define a :: rat where "a = 1 / 2 ^ 53"
  define b :: rat where "b = 1 / 2 ^ 24"
  have a: "0 \<le> a" "a \<le> 1" "a \<le> 1 / 4" and b: "0 \<le> b" "b \<le> 1"
    by (simp_all add: a_def b_def)
  have c: "1 \<le> c" "c \<le> 2" and num: "10999 / 10000 \<le> c * ((1 - a) * (1 - b))"
    by (simp_all add: c_def a_def b_def)
  from v(1) have vpos: "0 < v" by simp
  have upd: "press_update SpeedUp (Finite v) = fp_convert binary32 (fp_round binary64 x)"
    by (simp add: float_mul_assign_def one_plus_BLINK_RATE_value x_def c_def)
  have "v * 1 \<le> v * c" using c(1) vpos by (simp only: mult_le_cancel_left_pos)
  then have "v \<le> x" by (simp only: x_def mult_1_right)
  with v(1) have x_lo: "1 \<le> x" by (rule order_trans)
  then have xpos: "0 < x" by simp
  have "v * c \<le> v * 2" using c(2) vpos by (simp only: mult_le_cancel_left_pos)
  also have "\<dots> < pow2 128 * 2" using v(2) by simp
  also have "\<dots> = pow2 129" by (simp add: pow2_def)
  finally have x_hi: "x < pow2 129" by (simp only: x_def)
  have "pow2 (1 - emax binary64) \<le> pow2 0"
    by (rule pow2_mono) (simp add: binary64_def)
  also have "pow2 0 = 1" by (simp add: pow2_def)
  finally have lo64: "pow2 (1 - emax binary64) \<le> x" using x_lo by simp
  have "pow2 129 \<le> pow2 (emax binary64)"
    by (rule pow2_mono) (simp add: binary64_def)
  with x_hi have hi64: "x < pow2 (emax binary64)" by simp
  have pa: "pow2 (- int (prec binary64)) = a" and pb: "pow2 (- int (prec binary32)) = b"
    by (simp_all add: binary64_def binary32_def pow2_def a_def b_def)
  from fp_round_normal(2) [OF lo64 hi64]
  obtain y1 where y1: "fp_round binary64 x = Finite y1" and e1: "\<bar>y1 - x\<bar> \<le> x * a"
    unfolding pa by blast
  have "x * a \<le> x * (1 / 4)" using a(3) xpos by (simp only: mult_le_cancel_left_pos)
  with e1 have "3 / 4 * x \<le> y1" by (simp add: abs_le_iff)
  with x_lo have y1_lo: "1 / 2 \<le> y1" by simp
  have "pow2 (1 - emax binary32) \<le> pow2 (- 1)"
    by (rule pow2_mono) (simp add: binary32_def)
  also have "pow2 (- 1) = 1 / 2" by (simp add: pow2_def)
  finally have lo32: "pow2 (1 - emax binary32) \<le> y1" using y1_lo by simp
  from fp_round_normal(1) [OF lo32]
  consider "fp_round binary32 y1 = PInf"
    | y2 where "fp_round binary32 y1 = Finite y2" "\<bar>y2 - y1\<bar> \<le> y1 * b" "y2 < pow2 128"
    unfolding pb by (auto simp: binary32_def)
  then show ?thesis
  proof cases
    case 1
    then show ?thesis by (simp add: upd y1 del: press_update.simps)
  next
    case 2
    have "v * (10999 / 10000) \<le> v * (c * ((1 - a) * (1 - b)))"
      using num vpos by (simp only: mult_le_cancel_left_pos)
    also have "\<dots> = x * ((1 - a) * (1 - b))" by (simp only: x_def mult.assoc)
    also have "\<dots> \<le> y2" by (rule two_roundings(1) [OF xpos a(1,2) b e1 2(2)])
    finally have "v * (10999 / 10000) \<le> y2" .
    with 2 show ?thesis by (simp add: upd y1 del: press_update.simps)
  qed
qed

lemma speed_up_run:
  assumes "1 \<le> v" and "v < pow2 128"
  shows "rate_after (replicate n SpeedUp) (Finite v) = PInf \<or>
         (\<exists>v'. rate_after (replicate n SpeedUp) (Finite v) = Finite v'
               \<and> v * (10999 / 10000) ^ n \<le> v' \<and> v' < pow2 128)"
  using assms
proof (induction n arbitrary: v)
  case 0
  then show ?case by simp
next
  case (Suc n)
  from speed_up_grows [OF Suc.prems]
  consider "press_update SpeedUp (Finite v) = PInf"
    | v1 where "press_update SpeedUp (Finite v) = Finite v1"
        "v * (10999 / 10000) \<le> v1" "v1 < pow2 128"
    by blast
  then show ?case
  proof cases
    case 1
    then show ?thesis by (simp add: rate_after_PInf del: press_update.simps)
  next
    case 2
    have "v \<le> v * (10999 / 10000)" using Suc.prems(1) by simp
    from this 2(2) have "v \<le> v1" by (rule order_trans)
    with Suc.prems(1) have one: "1 \<le> v1" by (rule order_trans)
    from Suc.IH [OF one 2(3)]
    consider "rate_after (replicate n SpeedUp) (Finite v1) = PInf"
      | v' where "rate_after (replicate n SpeedUp) (Finite v1) = Finite v'"
          "v1 * (10999 / 10000) ^ n \<le> v'" "v' < pow2 128"
      by blast
    then show ?thesis
    proof cases
      case 1
      then show ?thesis by (simp add: 2(1) del: press_update.simps)
    next
      case inner: 2
      have "v * (10999 / 10000) ^ Suc n = v * (10999 / 10000) * (10999 / 10000) ^ n"
        by (simp only: power_Suc mult.assoc)
      also have "\<dots> \<le> v1 * (10999 / 10000) ^ n"
        using 2(2) by (rule mult_right_mono) simp
      also have "\<dots> \<le> v'" by (rule inner(2))
      finally have "v * (10999 / 10000) ^ Suc n \<le> v'" .
      with inner show ?thesis by (simp add: 2(1) del: press_update.simps power_Suc)
    qed
  qed
qed

lemma overflow_after_1000: "rate_after (replicate 1000 SpeedUp) (Finite 1) = PInf"
proof -
  have "pow2 128 \<le> pow2 129" by (rule pow2_mono) simp
  also have "pow2 129 = (8 :: rat) ^ 43" by (simp add: pow2_def)
  also have "\<dots> \<le> ((10999 / 10000) ^ 22) ^ 43"
    by (rule power_mono) (simp_all add: power_divide)
  also have "\<dots> = (10999 / 10000 :: rat) ^ 946" by (simp only: power_mult [symmetric]) simp
  also have "\<dots> \<le> (10999 / 10000) ^ 1000" by (rule power_increasing) simp_all
  finally have big: "pow2 128 \<le> (10999 / 10000) ^ 1000" .
  have one: "(1 :: rat) < pow2 128"
    using pow2_strict_mono [of 0 128] by (simp add: pow2_def)
  from speed_up_run [OF order_refl one, of 1000] big show ?thesis by auto
qed

lemma all_accepted_train:
  "200 < t - ts \<Longrightarrow> all_accepted ts (press_train n t st)"
proof (induction n arbitrary: t ts)
  case 0
  show ?case by simp
next
  case (Suc n)
  have "200 < (t + 1000) - t" by simp
  then have "all_accepted t (press_train n (t + 1000) st)" by (rule Suc.IH)
  with Suc.prems show ?case by (simp add: irq_at_def)
qed

lemma presses_train:
  "st AND RIGHT_BUTTON b = RIGHT_BUTTON b \<Longrightarrow>
   presses b (press_train n t st) = replicate n SpeedUp"
  by (induction n arbitrary: t) (simp_all add: irq_at_def)

text \<open>
  C5, as the code behaves. Of a sequence of interrupts that all pass the debounce test,
  \<open>N\<close> multiply the rate factor by \<^verbatim>\<open>(1 + BLINK_RATE)\<close> and \<open>M\<close> by
  \<^verbatim>\<open>(1 - BLINK_RATE)\<close>, in any order, starting from the initial rate factor 1. As long as
  \<open>N\<close> is at most 900 and \<open>M\<close> at most 800 (the rate factor then stays in the normal
  range of a \<^verbatim>\<open>float\<close>), the rate factor is a finite \<^verbatim>\<open>float\<close> whose distance from
  \<open>1.1 ^ N * 0.9 ^ M\<close> is at most that number times \<open>(N + M) / 2 ^ 22\<close>: every event
  adds a relative error of at most \<open>2 ^ - 23\<close>.
\<close>

theorem rate_within_tolerance:
  "all_accepted (g_ui32TimeStamp initial_globals) irqs \<Longrightarrow>
   speed_ups b irqs \<le> 900 \<Longrightarrow> slow_downs b irqs \<le> 800 \<Longrightarrow>
   close_to (g_fSpeed (serve b irqs initial_globals))
     ((11 / 10) ^ speed_ups b irqs * (9 / 10) ^ slow_downs b irqs)
     ((11 / 10) ^ speed_ups b irqs * (9 / 10) ^ slow_downs b irqs
        * of_nat (speed_ups b irqs + slow_downs b irqs) / 2 ^ 22)"
proof -
  assume acc: "all_accepted (g_ui32TimeStamp initial_globals) irqs"
    and ups: "speed_ups b irqs \<le> 900" and downs: "slow_downs b irqs \<le> 800"
  have len: "length (presses b irqs) = speed_ups b irqs + slow_downs b irqs"
    unfolding speed_ups_def slow_downs_def by (rule length_counts)
  have "close_to (rate_after (presses b irqs) (Finite 1)) (ideal_rate (presses b irqs))
           (ideal_rate (presses b irqs) * of_nat (length (presses b irqs)) / 2 ^ 22)"
    using ups downs unfolding speed_ups_def slow_downs_def by (rule rate_after_close)
  moreover have "g_fSpeed (serve b irqs initial_globals) = rate_after (presses b irqs) (Finite 1)"
    using serve_all_accepted [OF acc, of b] by (simp add: initial_globals_def)
  moreover have "ideal_rate (presses b irqs)
      = (11 / 10) ^ speed_ups b irqs * (9 / 10) ^ slow_downs b irqs"
    unfolding speed_ups_def slow_downs_def by (rule ideal_rate_counts)
  ultimately show ?thesis by (simp only: len)
qed

theorem rate_within_tolerance_witness:
  "all_accepted (g_ui32TimeStamp initial_globals) [irq_at 0x01 1000, irq_at 0x10 1300]
   \<and> speed_ups ek_tm4c123gxl [irq_at 0x01 1000, irq_at 0x10 1300] = 1
   \<and> slow_downs ek_tm4c123gxl [irq_at 0x01 1000, irq_at 0x10 1300] = 1
   \<and> g_fSpeed (serve ek_tm4c123gxl [irq_at 0x01 1000, irq_at 0x10 1300] initial_globals)
       = Finite (4152361 / 4194304)
   \<and> close_to (Finite (4152361 / 4194304)) (99 / 100) (99 / 100 * 2 / 2 ^ 22)"
proof -
  let ?irqs = "[irq_at 0x01 1000, irq_at 0x10 1300]"
  have acc: "all_accepted (g_ui32TimeStamp initial_globals) ?irqs"
    by (simp add: initial_globals_def irq_at_def)
  have n: "speed_ups ek_tm4c123gxl ?irqs = 1" and m: "slow_downs ek_tm4c123gxl ?irqs = 1"
    by (simp_all add: speed_ups_def slow_downs_def irq_at_def ek_tm4c123gxl_def)
  have val: "g_fSpeed (serve ek_tm4c123gxl ?irqs initial_globals) = Finite (4152361 / 4194304)"
    by (simp add: xButtonsHandler_def ek_tm4c123gxl_def irq_at_def initial_globals_def
        speed_up_from_1 slow_down_from_speed_up)
  have few: "speed_ups ek_tm4c123gxl ?irqs \<le> 900" "slow_downs ek_tm4c123gxl ?irqs \<le> 800"
    by (simp_all add: n m)
  from rate_within_tolerance [OF acc few, unfolded n m val]
  have "close_to (Finite (4152361 / 4194304)) (99 / 100) (99 / 100 * 2 / 2 ^ 22)"
    by simp
  with acc n m val show ?thesis by simp
qed

text \<open>
  C5, as the claim states it, for all \<open>N\<close> and \<open>M\<close>, fails: a \<^verbatim>\<open>float\<close> cannot hold
  \<open>1.1 ^ N\<close> for a large \<open>N\<close>. After 1000 accepted presses of the first button, one
  every 1000 ticks, and none of the second, the rate factor is the positive infinity,
  which is within no tolerance of \<open>1.1 ^ 1000\<close>.
\<close>

theorem overflow_counterexample:
  "g_fSpeed (serve ek_tm4c123gxl (press_train 1000 1000 0x01) initial_globals) = PInf
   \<and> speed_ups ek_tm4c123gxl (press_train 1000 1000 0x01) = 1000
   \<and> slow_downs ek_tm4c123gxl (press_train 1000 1000 0x01) = 0
   \<and> \<not> close_to (g_fSpeed (serve ek_tm4c123gxl (press_train 1000 1000 0x01) initial_globals))
         ((11 / 10) ^ 1000 * (9 / 10) ^ 0) ((11 / 10) ^ 1000 * (9 / 10) ^ 0)"
proof -
  let ?irqs = "press_train 1000 1000 0x01"
  have "all_accepted (g_ui32TimeStamp initial_globals) ?irqs"
    by (rule all_accepted_train) (simp add: initial_globals_def)
  then have "g_fSpeed (serve ek_tm4c123gxl ?irqs initial_globals)
      = rate_after (presses ek_tm4c123gxl ?irqs) (g_fSpeed initial_globals)"
    by (rule serve_all_accepted)
  moreover have p: "presses ek_tm4c123gxl ?irqs = replicate 1000 SpeedUp"
    by (rule presses_train) (simp add: ek_tm4c123gxl_def)
  ultimately have inf: "g_fSpeed (serve ek_tm4c123gxl ?irqs initial_globals) = PInf"
    by (simp only: initial_globals_def globals.simps overflow_after_1000)
  have n: "speed_ups ek_tm4c123gxl ?irqs = 1000" and m: "slow_downs ek_tm4c123gxl ?irqs = 0"
    unfolding speed_ups_def slow_downs_def p by (simp_all add: count_list_replicate_eq)
  have "\<not> close_to PInf ((11 / 10) ^ 1000 * (9 / 10) ^ 0) ((11 / 10) ^ 1000 * (9 / 10) ^ 0)"
    by (simp only: close_to_def fp.case simp_thms)
  with inf n m show ?thesis by (simp only: simp_thms)
qed

end
